theory Spec2Isabelle
  imports Main "HOL-Library.Word"
begin

section \<open>The JavaScript values the service works on\<close>

text \<open>
  The service (class \<open>CohereService\<close> of \<open>fesm2022/ngx-gen-ai-chat.mjs\<close>) is written in
  JavaScript, so the embedding starts with the part of the language it relies on.

  A JavaScript string is a sequence of 16-bit code units. String literals of the source
  are written \<open>js ''...''\<close>.
\<close>

type_synonym jschar = "16 word"
type_synonym jsstring = "jschar list"

definition js :: "string \<Rightarrow> jsstring" where
  "js s = map (\<lambda>c. of_char c) s"

text \<open>
  \<open>String.prototype.trim\<close> removes the code units of \<open>WhiteSpace\<close> and
  \<open>LineTerminator\<close> (ECMA-262, 22.1.3.32) from both ends.
\<close>

definition is_js_space :: "jschar \<Rightarrow> bool" where
  "is_js_space c \<longleftrightarrow>
     c = 0x09 \<or> c = 0x0A \<or> c = 0x0B \<or> c = 0x0C \<or> c = 0x0D \<or> c = 0x20 \<or> c = 0xA0 \<or>
     c = 0x1680 \<or> (0x2000 \<le> c \<and> c \<le> 0x200A) \<or> c = 0x2028 \<or> c = 0x2029 \<or>
     c = 0x202F \<or> c = 0x205F \<or> c = 0x3000 \<or> c = 0xFEFF"

definition js_trim :: "jsstring \<Rightarrow> jsstring" where
  "js_trim s = rev (dropWhile is_js_space (rev (dropWhile is_js_space s)))"

definition js_startsWith :: "jsstring \<Rightarrow> jsstring \<Rightarrow> bool" where
  "js_startsWith s p \<longleftrightarrow> take (length p) s = p"

definition js_substring :: "jsstring \<Rightarrow> nat \<Rightarrow> jsstring" where
  "js_substring s n = drop n s"

text \<open>
  \<open>s.split('\n')\<close>: the pieces between the line feeds; never an empty array (the empty
  string gives one empty piece).
\<close>

fun js_split :: "jsstring \<Rightarrow> jsstring list" where
  "js_split [] = [[]]"
| "js_split (c # cs) =
     (if c = 0x0A then [] # js_split cs
      else (case js_split cs of [] \<Rightarrow> [[c]] | l # ls \<Rightarrow> (c # l) # ls))"

text \<open>
  Numbers. A number is kept as an exact decimal \<open>Dec m e\<close>, standing for \<open>m * 10 ^ e\<close>,
  in normal form: \<open>m\<close> is not divisible by ten, and zero is \<open>Dec 0 0\<close>. The rounding of
  IEEE doubles (and their overflow to infinity) is outside the model; \<open>NaN\<close> is the one
  non-number value that addition can produce.
\<close>

datatype jsnum = Dec int int | NaN

function norm10 :: "int \<Rightarrow> int \<Rightarrow> jsnum" where
  "norm10 m e = (if m = 0 then Dec 0 0
                 else if m mod 10 = 0 then norm10 (m div 10) (e + 1)
                 else Dec m e)"
  by pat_completeness auto
termination
  by (relation "measure (\<lambda>(m, e). nat \<bar>m\<bar>)") auto

declare norm10.simps [simp del]

fun num_add :: "jsnum \<Rightarrow> jsnum \<Rightarrow> jsnum" where
  "num_add (Dec m1 e1) (Dec m2 e2) =
     (let e = min e1 e2
      in norm10 (m1 * 10 ^ nat (e1 - e) + m2 * 10 ^ nat (e2 - e)) e)"
| "num_add _ _ = NaN"

definition digit_char :: "int \<Rightarrow> jschar" where
  "digit_char d = of_int (48 + d)"

function digits10 :: "int \<Rightarrow> jsstring" where
  "digits10 n = (if n < 10 then [digit_char n]
                 else digits10 (n div 10) @ [digit_char (n mod 10)])"
  by pat_completeness auto
termination
  by (relation "measure nat") auto

declare digits10.simps [simp del]

text \<open>\<open>Number::toString\<close> in radix 10 (ECMA-262, 6.1.6.1.20), on exact decimals.\<close>

definition pos_to_string :: "int \<Rightarrow> int \<Rightarrow> jsstring" where
  "pos_to_string m e =
     (let ds = digits10 m; k = int (length ds); n = k + e
      in if k \<le> n \<and> n \<le> 21 then ds @ replicate (nat (n - k)) (digit_char 0)
         else if 0 < n \<and> n \<le> 21 then take (nat n) ds @ js ''.'' @ drop (nat n) ds
         else if - 6 < n \<and> n \<le> 0 then js ''0.'' @ replicate (nat (- n)) (digit_char 0) @ ds
         else (let x = n - 1;
                   sg = (if x < 0 then js ''-'' else js ''+'');
                   xs = digits10 \<bar>x\<bar>
               in if k = 1 then ds @ js ''e'' @ sg @ xs
                  else take 1 ds @ js ''.'' @ drop 1 ds @ js ''e'' @ sg @ xs))"

fun num_to_string :: "jsnum \<Rightarrow> jsstring" where
  "num_to_string NaN = js ''NaN''"
| "num_to_string (Dec m e) =
     (if m = 0 then js ''0''
      else if m < 0 then js ''-'' @ pos_to_string (- m) e
      else pos_to_string m e)"

text \<open>
  Values: what \<open>JSON.parse\<close> produces, and \<open>undefined\<close>. An object is the list of its
  own properties in the order JavaScript enumerates them.
\<close>

datatype jsval =
    Undefined
  | Null
  | Bool bool
  | Num jsnum
  | Str jsstring
  | Arr "jsval list"
  | Obj "(jsstring \<times> jsval) list"

text \<open>\<open>ToBoolean\<close>: what \<open>!v\<close>, \<open>v || w\<close> and \<open>if (v)\<close> test.\<close>

fun truthy :: "jsval \<Rightarrow> bool" where
  "truthy Undefined = False"
| "truthy Null = False"
| "truthy (Bool b) = b"
| "truthy (Num n) = (n \<noteq> NaN \<and> n \<noteq> Dec 0 0)"
| "truthy (Str s) = (s \<noteq> [])"
| "truthy (Arr _) = True"
| "truthy (Obj _) = True"

definition js_or :: "jsval \<Rightarrow> jsval \<Rightarrow> jsval" where
  "js_or a b = (if truthy a then a else b)"

text \<open>
  Property access. The property names the service reads (\<open>type\<close>, \<open>delta\<close>,
  \<open>message\<close>, \<open>id\<close>, \<open>function\<close>, \<open>name\<close>, \<open>arguments\<close>, ...) are own properties of
  an object or absent: no prototype of a parsed value defines them. \<open>v.k\<close> throws a
  \<open>TypeError\<close> when \<open>v\<close> is \<open>null\<close> or \<open>undefined\<close>; \<open>v?.k\<close> gives \<open>undefined\<close> there.
\<close>

datatype thrown =
    Error jsstring
  | TypeError jsstring
  | SyntaxError jsstring
  | AbortError jsstring
  | Thrown jsval

fun own :: "jsval \<Rightarrow> jsstring \<Rightarrow> jsval" where
  "own (Obj ps) k = (case map_of ps k of None \<Rightarrow> Undefined | Some v \<Rightarrow> v)"
| "own _ k = Undefined"

definition nullish :: "jsval \<Rightarrow> bool" where
  "nullish v \<longleftrightarrow> v = Undefined \<or> v = Null"

definition get :: "jsval \<Rightarrow> jsstring \<Rightarrow> thrown + jsval" where
  "get v k = (if nullish v then Inl (TypeError (js ''Cannot read properties of null or undefined''))
              else Inr (own v k))"

definition opt :: "jsval \<Rightarrow> jsstring \<Rightarrow> jsval" where
  "opt v k = (if nullish v then Undefined else own v k)"

text \<open>\<open>ToString\<close>, as template literals and string concatenation apply it.\<close>

fun to_string :: "jsval \<Rightarrow> jsstring"
  and join_elems :: "jsval list \<Rightarrow> jsstring" where
  "to_string Undefined = js ''undefined''"
| "to_string Null = js ''null''"
| "to_string (Bool b) = (if b then js ''true'' else js ''false'')"
| "to_string (Num n) = num_to_string n"
| "to_string (Str s) = s"
| "to_string (Arr xs) = join_elems xs"
| "to_string (Obj ps) = js ''[object Object]''"
| "join_elems [] = []"
| "join_elems (x # xs) =
     (if nullish x then [] else to_string x) @ (if xs = [] then [] else js '','' @ join_elems xs)"

text \<open>
  The operator \<open>+\<close> (ECMA-262, 13.15.3): objects and arrays are first turned into their
  strings; a string on either side makes it a concatenation, otherwise the numbers are
  added.
\<close>

fun to_primitive :: "jsval \<Rightarrow> jsval" where
  "to_primitive (Arr xs) = Str (to_string (Arr xs))"
| "to_primitive (Obj ps) = Str (to_string (Obj ps))"
| "to_primitive v = v"

fun to_number :: "jsval \<Rightarrow> jsnum" where
  "to_number Null = Dec 0 0"
| "to_number (Bool b) = (if b then Dec 1 0 else Dec 0 0)"
| "to_number (Num n) = n"
| "to_number _ = NaN"

fun is_Str :: "jsval \<Rightarrow> bool" where
  "is_Str (Str _) = True"
| "is_Str _ = False"

definition js_plus :: "jsval \<Rightarrow> jsval \<Rightarrow> jsval" where
  "js_plus a b =
     (let l = to_primitive a; r = to_primitive b
      in if is_Str l \<or> is_Str r then Str (to_string l @ to_string r)
         else Num (num_add (to_number l) (to_number r)))"

lemma js_plus_Str [simp]: "js_plus (Str a) (Str b) = Str (a @ b)"
  by (simp add: js_plus_def)

section \<open>JSON.parse and JSON.stringify\<close>

text \<open>
  \<open>JSON.parse\<close> (ECMA-262, 25.5.1, the grammar of ECMA-404) in two passes: the text is
  cut into tokens, and the tokens are read with an explicit stack of the arrays and
  objects that are still open. \<open>None\<close> stands for the \<open>SyntaxError\<close> it throws.
\<close>

datatype token = LBrace | RBrace | LBrack | RBrack | Colon | Comma | Lit jsval

definition is_json_ws :: "jschar \<Rightarrow> bool" where
  "is_json_ws c \<longleftrightarrow> c = 0x20 \<or> c = 0x09 \<or> c = 0x0A \<or> c = 0x0D"

definition is_digit :: "jschar \<Rightarrow> bool" where
  "is_digit c \<longleftrightarrow> 0x30 \<le> c \<and> c \<le> 0x39"

definition int_of_digits :: "jsstring \<Rightarrow> int" where
  "int_of_digits ds = foldl (\<lambda>a d. a * 10 + (uint d - 48)) 0 ds"

definition hexval :: "jschar \<Rightarrow> int option" where
  "hexval c =
     (if 0x30 \<le> c \<and> c \<le> 0x39 then Some (uint c - 48)
      else if 0x61 \<le> c \<and> c \<le> 0x66 then Some (uint c - 87)
      else if 0x41 \<le> c \<and> c \<le> 0x46 then Some (uint c - 55)
      else None)"

definition unhex4 :: "jschar \<Rightarrow> jschar \<Rightarrow> jschar \<Rightarrow> jschar \<Rightarrow> jschar option" where
  "unhex4 a b c d =
     (case (hexval a, hexval b, hexval c, hexval d) of
        (Some x, Some y, Some z, Some w) \<Rightarrow> Some (of_int (((x * 16 + y) * 16 + z) * 16 + w))
      | _ \<Rightarrow> None)"

definition unescape :: "jschar \<Rightarrow> jschar option" where
  "unescape e =
     (if e = 0x22 then Some 0x22
      else if e = 0x5C then Some 0x5C
      else if e = 0x2F then Some 0x2F
      else if e = 0x62 then Some 0x08
      else if e = 0x66 then Some 0x0C
      else if e = 0x6E then Some 0x0A
      else if e = 0x72 then Some 0x0D
      else if e = 0x74 then Some 0x09
      else None)"

definition consopt :: "'a \<Rightarrow> ('a list \<times> 'b) option \<Rightarrow> ('a list \<times> 'b) option" where
  "consopt c r = (case r of None \<Rightarrow> None | Some (s, rest) \<Rightarrow> Some (c # s, rest))"

text \<open>The characters of a string literal after its opening quote, and what follows the
  closing quote.\<close>

fun lex_string :: "jsstring \<Rightarrow> (jsstring \<times> jsstring) option" where
  "lex_string [] = None"
| "lex_string (c # cs) =
     (if c = 0x22 then Some ([], cs)
      else if c = 0x5C then
        (case cs of
           [] \<Rightarrow> None
         | e # r \<Rightarrow>
             if e = 0x75 then
               (case r of
                  h1 # h2 # h3 # h4 # r' \<Rightarrow>
                    (case unhex4 h1 h2 h3 h4 of
                       None \<Rightarrow> None
                     | Some u \<Rightarrow> consopt u (lex_string r'))
                | _ \<Rightarrow> None)
             else (case unescape e of None \<Rightarrow> None | Some u \<Rightarrow> consopt u (lex_string r)))
      else if c < 0x20 then None
      else consopt c (lex_string cs))"

text \<open>A number: \<open>-? (0 | [1-9][0-9]*) (. [0-9]+)? ([eE] [+-]? [0-9]+)?\<close>.\<close>

definition lex_int :: "jsstring \<Rightarrow> (jsstring \<times> jsstring) option" where
  "lex_int s =
     (case s of
        [] \<Rightarrow> None
      | d # r \<Rightarrow>
          if d = 0x30 then Some ([d], r)
          else if is_digit d then Some (d # takeWhile is_digit r, dropWhile is_digit r)
          else None)"

definition lex_frac :: "jsstring \<Rightarrow> (jsstring \<times> jsstring) option" where
  "lex_frac s =
     (case s of
        [] \<Rightarrow> Some ([], s)
      | c # r \<Rightarrow>
          if c = 0x2E then
            (if takeWhile is_digit r = [] then None
             else Some (takeWhile is_digit r, dropWhile is_digit r))
          else Some ([], s))"

definition lex_digits1 :: "jsstring \<Rightarrow> (int \<times> jsstring) option" where
  "lex_digits1 s =
     (if takeWhile is_digit s = [] then None
      else Some (int_of_digits (takeWhile is_digit s), dropWhile is_digit s))"

definition lex_exp :: "jsstring \<Rightarrow> (int \<times> jsstring) option" where
  "lex_exp s =
     (case s of
        [] \<Rightarrow> Some (0, s)
      | c # r \<Rightarrow>
          if c = 0x65 \<or> c = 0x45 then
            (case r of
               [] \<Rightarrow> None
             | g # r' \<Rightarrow>
                 if g = 0x2D then map_option (\<lambda>(n, t). (- n, t)) (lex_digits1 r')
                 else if g = 0x2B then lex_digits1 r'
                 else lex_digits1 r)
          else Some (0, s))"

definition lex_unsigned :: "bool \<Rightarrow> jsstring \<Rightarrow> (jsnum \<times> jsstring) option" where
  "lex_unsigned neg s =
     (case lex_int s of
        None \<Rightarrow> None
      | Some (ip, r1) \<Rightarrow>
          (case lex_frac r1 of
             None \<Rightarrow> None
           | Some (fp, r2) \<Rightarrow>
               (case lex_exp r2 of
                  None \<Rightarrow> None
                | Some (x, r3) \<Rightarrow>
                    let m = int_of_digits (ip @ fp)
                    in Some (norm10 (if neg then - m else m) (x - int (length fp)), r3))))"

definition lex_number :: "jsstring \<Rightarrow> (jsnum \<times> jsstring) option" where
  "lex_number s =
     (case s of
        [] \<Rightarrow> None
      | c # r \<Rightarrow> if c = 0x2D then lex_unsigned True r else lex_unsigned False s)"

lemma consopt_length:
  "consopt c r = Some (s, rest) \<Longrightarrow> \<exists>s'. r = Some (s', rest)"
  by (cases r) (auto simp: consopt_def)

lemma lex_string_length: "lex_string cs = Some (s, r) \<Longrightarrow> length r < length cs"
proof (induction "length cs" arbitrary: cs s r rule: less_induct)
  case less
  show ?case
  proof (cases cs)
    case Nil
    with less.prems show ?thesis by simp
  next
    case (Cons c cs')
    have IH: "\<And>t s'. lex_string t = Some (s', r) \<Longrightarrow> length t \<le> length cs' \<Longrightarrow> length r < length t"
      using less.hyps Cons by simp
    from less.prems Cons show ?thesis
      by (auto split: if_splits list.splits option.splits dest!: consopt_length dest!: IH)
  qed
qed

lemma lex_digits1_length: "lex_digits1 s = Some (n, r) \<Longrightarrow> length r \<le> length s"
  by (auto simp: lex_digits1_def length_dropWhile_le split: if_splits)

lemma lex_exp_length: "lex_exp s = Some (x, r) \<Longrightarrow> length r \<le> length s"
  by (auto simp: lex_exp_def split: list.splits if_splits dest!: lex_digits1_length)

lemma lex_frac_length: "lex_frac s = Some (x, r) \<Longrightarrow> length r \<le> length s"
  by (auto simp: lex_frac_def length_dropWhile_le le_SucI split: list.splits if_splits)

lemma lex_int_length: "lex_int s = Some (x, r) \<Longrightarrow> length r < length s"
  by (auto simp: lex_int_def length_dropWhile_le less_Suc_eq_le split: list.splits if_splits)

lemma lex_unsigned_length: "lex_unsigned neg s = Some (x, r) \<Longrightarrow> length r < length s"
  by (auto simp: lex_unsigned_def Let_def split: option.splits
      dest!: lex_int_length lex_frac_length lex_exp_length)

lemma lex_number_length: "lex_number s = Some (x, r) \<Longrightarrow> length r < length s"
  by (auto simp: lex_number_def split: list.splits if_splits dest!: lex_unsigned_length)

definition tcons :: "token \<Rightarrow> token list option \<Rightarrow> token list option" where
  "tcons t r = map_option (Cons t) r"

function lex :: "jsstring \<Rightarrow> token list option" where
  "lex [] = Some []"
| "lex (c # cs) =
     (if is_json_ws c then lex cs
      else if c = 0x7B then tcons LBrace (lex cs)
      else if c = 0x7D then tcons RBrace (lex cs)
      else if c = 0x5B then tcons LBrack (lex cs)
      else if c = 0x5D then tcons RBrack (lex cs)
      else if c = 0x3A then tcons Colon (lex cs)
      else if c = 0x2C then tcons Comma (lex cs)
      else if c = 0x22 then
        (case lex_string cs of
           None \<Rightarrow> None
         | Some (s, r) \<Rightarrow> tcons (Lit (Str s)) (lex r))
      else if c = 0x2D \<or> is_digit c then
        (case lex_number (c # cs) of
           None \<Rightarrow> None
         | Some (n, r) \<Rightarrow> tcons (Lit (Num n)) (lex r))
      else if js_startsWith (c # cs) (js ''true'') then tcons (Lit (Bool True)) (lex (drop 3 cs))
      else if js_startsWith (c # cs) (js ''false'') then tcons (Lit (Bool False)) (lex (drop 4 cs))
      else if js_startsWith (c # cs) (js ''null'') then tcons (Lit Null) (lex (drop 3 cs))
      else None)"
  by pat_completeness auto
termination
proof (relation "measure length", goal_cases)
  case (9 c cs x2 x y)
  then show ?case using lex_string_length [of cs x y] by simp
next
  case (10 c cs x2 x y)
  then show ?case using lex_number_length [of "c # cs" x y] by simp
qed auto

declare lex.simps [simp del]

text \<open>
  Own property keys are enumerated with the array indices first, in ascending order, then
  the other names in the order of their creation (ECMA-262, 10.1.11.1); a repeated name
  keeps its place and takes the later value.
\<close>

definition is_array_index :: "jsstring \<Rightarrow> bool" where
  "is_array_index k \<longleftrightarrow>
     k \<noteq> [] \<and> list_all is_digit k \<and> (k = [0x30] \<or> hd k \<noteq> 0x30) \<and>
     int_of_digits k < 4294967295"

fun insert_index :: "jsstring \<Rightarrow> jsval \<Rightarrow> (jsstring \<times> jsval) list \<Rightarrow> (jsstring \<times> jsval) list" where
  "insert_index k v [] = [(k, v)]"
| "insert_index k v ((k', v') # ps) =
     (if is_array_index k' \<and> int_of_digits k' < int_of_digits k
      then (k', v') # insert_index k v ps
      else (k, v) # (k', v') # ps)"

definition obj_put :: "jsstring \<Rightarrow> jsval \<Rightarrow> (jsstring \<times> jsval) list \<Rightarrow> (jsstring \<times> jsval) list" where
  "obj_put k v ps =
     (if k \<in> fst ` set ps then map (\<lambda>(k', v'). if k' = k then (k', v) else (k', v')) ps
      else if is_array_index k then insert_index k v ps
      else ps @ [(k, v)])"

text \<open>
  The tokens are read with a stack of the open arrays (their elements so far, last
  first) and objects (their properties so far and the name awaiting its value).
  \<open>json_value\<close> expects a value; \<open>json_after\<close> has just read one.
\<close>

datatype frame = FArr "jsval list" | FObj "(jsstring \<times> jsval) list" jsstring

function json_value :: "frame list \<Rightarrow> token list \<Rightarrow> jsval option"
  and json_after :: "jsval \<Rightarrow> frame list \<Rightarrow> token list \<Rightarrow> jsval option" where
  "json_value st ts =
     (case ts of
        Lit v # ts' \<Rightarrow> json_after v st ts'
      | LBrack # RBrack # ts' \<Rightarrow> json_after (Arr []) st ts'
      | LBrack # ts' \<Rightarrow> json_value (FArr [] # st) ts'
      | LBrace # RBrace # ts' \<Rightarrow> json_after (Obj []) st ts'
      | LBrace # Lit (Str k) # Colon # ts' \<Rightarrow> json_value (FObj [] k # st) ts'
      | _ \<Rightarrow> None)"
| "json_after v st ts =
     (case st of
        [] \<Rightarrow> (if ts = [] then Some v else None)
      | FArr acc # st' \<Rightarrow>
          (case ts of
             Comma # ts' \<Rightarrow> json_value (FArr (v # acc) # st') ts'
           | RBrack # ts' \<Rightarrow> json_after (Arr (rev (v # acc))) st' ts'
           | _ \<Rightarrow> None)
      | FObj ps k # st' \<Rightarrow>
          (case ts of
             Comma # Lit (Str k') # Colon # ts' \<Rightarrow> json_value (FObj (obj_put k v ps) k' # st') ts'
           | RBrace # ts' \<Rightarrow> json_after (Obj (obj_put k v ps)) st' ts'
           | _ \<Rightarrow> None))"
  by pat_completeness auto
termination
  by (relation "measure (\<lambda>x. case x of Inl (st, ts) \<Rightarrow> length ts | Inr (v, st, ts) \<Rightarrow> length ts)")
    auto

declare json_value.simps [simp del] json_after.simps [simp del]

definition JSON_parse :: "jsstring \<Rightarrow> jsval option" where
  "JSON_parse s = (case lex s of None \<Rightarrow> None | Some ts \<Rightarrow> json_value [] ts)"

text \<open>
  \<open>JSON.stringify\<close> (ECMA-262, 25.5.2) without replacer or indentation.
  \<open>QuoteJSONString\<close> escapes the quote, the backslash, the control characters and the
  surrogates that are not part of a pair.
\<close>

definition hex_digit :: "int \<Rightarrow> jschar" where
  "hex_digit n = (if n < 10 then of_int (48 + n) else of_int (87 + n))"

definition unicode_escape :: "jschar \<Rightarrow> jsstring" where
  "unicode_escape c =
     (let n = uint c
      in [0x5C, 0x75, hex_digit (n div 4096 mod 16), hex_digit (n div 256 mod 16),
          hex_digit (n div 16 mod 16), hex_digit (n mod 16)])"

definition is_high_surrogate :: "jschar \<Rightarrow> bool" where
  "is_high_surrogate c \<longleftrightarrow> 0xD800 \<le> c \<and> c \<le> 0xDBFF"

definition is_low_surrogate :: "jschar \<Rightarrow> bool" where
  "is_low_surrogate c \<longleftrightarrow> 0xDC00 \<le> c \<and> c \<le> 0xDFFF"

fun quote_chars :: "jsstring \<Rightarrow> jsstring" where
  "quote_chars [] = []"
| "quote_chars (c # cs) =
     (if c = 0x08 then [0x5C, 0x62] @ quote_chars cs
      else if c = 0x09 then [0x5C, 0x74] @ quote_chars cs
      else if c = 0x0A then [0x5C, 0x6E] @ quote_chars cs
      else if c = 0x0C then [0x5C, 0x66] @ quote_chars cs
      else if c = 0x0D then [0x5C, 0x72] @ quote_chars cs
      else if c = 0x22 then [0x5C, 0x22] @ quote_chars cs
      else if c = 0x5C then [0x5C, 0x5C] @ quote_chars cs
      else if c < 0x20 then unicode_escape c @ quote_chars cs
      else if is_high_surrogate c then
        (case cs of
           [] \<Rightarrow> unicode_escape c
         | d # ds \<Rightarrow>
             if is_low_surrogate d then c # d # quote_chars ds
             else unicode_escape c @ quote_chars cs)
      else if is_low_surrogate c then unicode_escape c @ quote_chars cs
      else c # quote_chars cs)"

definition QuoteJSONString :: "jsstring \<Rightarrow> jsstring" where
  "QuoteJSONString s = [0x22] @ quote_chars s @ [0x22]"

fun join_comma :: "jsstring list \<Rightarrow> jsstring" where
  "join_comma [] = []"
| "join_comma [x] = x"
| "join_comma (x # y # zs) = x @ [0x2C] @ join_comma (y # zs)"

text \<open>
  \<open>serialize\<close> is the text of a value that is not \<open>undefined\<close>. Inside an array
  \<open>undefined\<close> is written \<open>null\<close>; a property whose value is \<open>undefined\<close> is left out.
\<close>

fun serialize :: "jsval \<Rightarrow> jsstring"
  and serialize_elems :: "jsval list \<Rightarrow> jsstring list"
  and serialize_props :: "(jsstring \<times> jsval) list \<Rightarrow> jsstring list" where
  "serialize Undefined = js ''null''"
| "serialize Null = js ''null''"
| "serialize (Bool b) = (if b then js ''true'' else js ''false'')"
| "serialize (Num n) = (if n = NaN then js ''null'' else num_to_string n)"
| "serialize (Str s) = QuoteJSONString s"
| "serialize (Arr xs) = [0x5B] @ join_comma (serialize_elems xs) @ [0x5D]"
| "serialize (Obj ps) = [0x7B] @ join_comma (serialize_props ps) @ [0x7D]"
| "serialize_elems [] = []"
| "serialize_elems (x # xs) = serialize x # serialize_elems xs"
| "serialize_props [] = []"
| "serialize_props ((k, v) # ps) =
     (if v = Undefined then serialize_props ps
      else (QuoteJSONString k @ [0x3A] @ serialize v) # serialize_props ps)"

text \<open>
  \<open>JSON.stringify(v)\<close> is \<open>undefined\<close> for \<open>v = undefined\<close> and the text of \<open>v\<close>
  otherwise.
\<close>

definition JSON_stringify :: "jsval \<Rightarrow> jsval" where
  "JSON_stringify v = (if v = Undefined then Undefined else Str (serialize v))"

text \<open>
  \<open>String(err)\<close> for a caught value: \<open>Error.prototype.toString\<close> (ECMA-262, 20.5.3.4)
  joins the name and the message of an error object; any other thrown value is
  converted by \<open>ToString\<close>.
\<close>

definition error_text :: "string \<Rightarrow> jsstring \<Rightarrow> jsstring" where
  "error_text nm msg = (if msg = [] then js nm else js nm @ js '': '' @ msg)"

fun String_of :: "thrown \<Rightarrow> jsstring" where
  "String_of (Error msg) = error_text ''Error'' msg"
| "String_of (TypeError msg) = error_text ''TypeError'' msg"
| "String_of (SyntaxError msg) = error_text ''SyntaxError'' msg"
| "String_of (AbortError msg) = error_text ''AbortError'' msg"
| "String_of (Thrown v) = to_string v"

section \<open>The service\<close>

subsection \<open>Helpers\<close>

text \<open>
  \<open>ensureJsonString(val)\<close>. The text of \<open>JSON.stringify\<close> is taken with \<open>to_string\<close>,
  as the callers do when they put the result into a template literal or hand it to
  \<open>JSON.parse\<close>.
\<close>

definition ensureJsonString :: "jsval \<Rightarrow> jsstring" where
  "ensureJsonString val =
     (if \<not> truthy val then js ''{}''
      else (case val of
              Str s \<Rightarrow>
                (let trimmed = js_trim s
                 in if \<not> truthy (Str trimmed) then js ''{}''
                    else (case JSON_parse trimmed of
                            Some _ \<Rightarrow> trimmed
                          | None \<Rightarrow> to_string (JSON_stringify (Str trimmed))))
            | _ \<Rightarrow> to_string (JSON_stringify val)))"

text \<open>
  What a tool handler returns is typed \<open>any\<close>. The service does two things with it:
  it asks \<open>Array.isArray\<close>, and it hands it (or the one-element array around it) to
  \<open>JSON.stringify\<close>. A result is therefore either a value of the kind above, or a value
  that \<open>JSON.stringify\<close> refuses with a \<open>TypeError\<close>: a \<open>BigInt\<close>, an object or
  array that holds one or that contains itself, an object whose \<open>toJSON\<close> throws. The
  one-element array around such a value is refused as well. The message of the
  \<open>TypeError\<close> depends on the value; nothing in the service reads it.
\<close>

datatype result = Json jsval | Unserializable

fun stringify :: "result \<Rightarrow> thrown + jsval" where
  "stringify (Json v) = Inr (JSON_stringify v)"
| "stringify Unserializable = Inl (TypeError (js ''Do not know how to serialize a BigInt''))"

definition wrapToolResult :: "jsval \<Rightarrow> result \<Rightarrow> thrown + jsval" where
  "wrapToolResult i content =
     (case stringify content of
        Inl e \<Rightarrow> Inl e
      | Inr s \<Rightarrow>
          Inr (Obj [(js ''role'', Str (js ''tool'')), (js ''tool_call_id'', i),
                    (js ''content'', s)]))"

text \<open>
  A registered tool. Its handler receives the parsed arguments; it may change the world
  outside the service (\<open>'w\<close>) and either returns a result or throws (a rejected promise
  is a throw at the \<open>await\<close>).
\<close>

record 'w tool =
  name :: jsstring
  description :: jsval
  parameters :: jsval
  handler :: "(jsval \<Rightarrow> 'w \<Rightarrow> (thrown + result) \<times> 'w) option"

record 'w config =
  apiKey :: jsstring
  modelName :: jsstring
  systemPrompt :: jsstring
  apiUrl :: jsstring
  tools :: "'w tool list option"
  documents :: jsval

definition default_parameters :: jsval where
  "default_parameters =
     Obj [(js ''type'', Str (js ''object'')), (js ''properties'', Obj []),
          (js ''required'', Arr [])]"

definition transformTools :: "'w tool list option \<Rightarrow> jsval" where
  "transformTools ts =
     (case ts of
        None \<Rightarrow> Undefined
      | Some l \<Rightarrow>
          if l = [] then Undefined
          else Arr (map (\<lambda>t. Obj [(js ''type'', Str (js ''function'')),
                                   (js ''function'',
                                    Obj [(js ''name'', Str (name t)),
                                         (js ''description'', description t),
                                         (js ''parameters'',
                                          js_or (parameters t) default_parameters)])]) l))"

subsection \<open>The tool executor\<close>

text \<open>
  A tool call is the object \<open>{id, name, arguments}\<close> that the stream reader has
  accumulated. The first part of \<open>handleToolCalls\<close> runs every call of the list:

  \<^verbatim>\<open>const toolResults = await Promise.all(toolCalls.map(async (call) => { ... }))\<close>

  \<open>map\<close> starts the calls in order, and each runs without interruption up to its
  \<open>await tool.handler(params)\<close>; the cache is written after that \<open>await\<close> only. So
  every call of one list looks the cache up as it was when the list was started, the
  handlers are called in the order of the list, and the results are stored afterwards.
  A handler's whole effect on the world is taken at its call, and the handlers are taken
  to settle in the order of the list, so that the stores are made in that order (the
  order matters only when two calls of one list have the same key and both handlers
  return, see \<open>store_commute\<close>).

  \<open>handleToolCalls\<close> is private and \<open>readStream\<close> is its only caller: the calls are
  the objects that the reader has built, never \<open>null\<close> or \<open>undefined\<close>.
\<close>

definition cacheKey_of :: "jsval \<Rightarrow> jsstring" where
  "cacheKey_of call =
     to_string (own call (js ''name'')) @ js '':'' @ ensureJsonString (own call (js ''arguments''))"

definition not_found :: "jsval \<Rightarrow> thrown" where
  "not_found call =
     Error (js ''Tool handler for \"'' @ to_string (own call (js ''name'')) @ js ''\" not found'')"

definition find_tool :: "'w tool list option \<Rightarrow> jsval \<Rightarrow> 'w tool option" where
  "find_tool ts nm = (case ts of None \<Rightarrow> None | Some l \<Rightarrow> List.find (\<lambda>t. Str (name t) = nm) l)"

text \<open>\<open>Array.isArray(result) ? result : [result]\<close>.\<close>

fun as_list :: "result \<Rightarrow> result" where
  "as_list (Json (Arr xs)) = Json (Arr xs)"
| "as_list (Json v) = Json (Arr [v])"
| "as_list Unserializable = Unserializable"

text \<open>
  What became of one call: its result was taken from the cache, or it failed (the thrown
  value is caught), or its handler returned and the list form of the result is to be
  stored under the call's key. \<open>invocation\<close> records a call of a handler: the tool and
  the parameters it received.
\<close>

datatype outcome = Replayed result | Failed thrown | Returned jsstring result

type_synonym invocation = "jsstring \<times> jsval"

definition run_call ::
  "(jsstring \<rightharpoonup> result) \<Rightarrow> 'w config \<Rightarrow> jsval \<Rightarrow> 'w \<Rightarrow> outcome \<times> 'w \<times> invocation list" where
  "run_call cache cfg call w =
     (let safeArgs = ensureJsonString (own call (js ''arguments''));
          cacheKey = to_string (own call (js ''name'')) @ js '':'' @ safeArgs
      in case cache cacheKey of
           Some cached \<Rightarrow> (Replayed cached, w, [])
         | None \<Rightarrow>
             (case find_tool (tools cfg) (own call (js ''name'')) of
                None \<Rightarrow> (Failed (not_found call), w, [])
              | Some t \<Rightarrow>
                  (case handler t of
                     None \<Rightarrow> (Failed (not_found call), w, [])
                   | Some h \<Rightarrow>
                       (case JSON_parse safeArgs of
                          None \<Rightarrow> (Failed (SyntaxError (js ''Unexpected token'')), w, [])
                        | Some params \<Rightarrow>
                            (case h params w of
                               (Inl err, w') \<Rightarrow> (Failed err, w', [(name t, params)])
                             | (Inr result, w') \<Rightarrow>
                                 (Returned cacheKey (as_list result), w', [(name t, params)]))))))"

fun run_calls ::
  "(jsstring \<rightharpoonup> result) \<Rightarrow> 'w config \<Rightarrow> jsval list \<Rightarrow> 'w \<Rightarrow> outcome list \<times> 'w \<times> invocation list"
  where
  "run_calls cache cfg [] w = ([], w, [])"
| "run_calls cache cfg (call # calls) w =
     (case run_call cache cfg call w of
        (out, w1, inv1) \<Rightarrow>
          (case run_calls cache cfg calls w1 of
             (outs, w2, inv2) \<Rightarrow> (out # outs, w2, inv1 @ inv2)))"

fun store :: "(jsstring \<rightharpoonup> result) \<Rightarrow> outcome \<Rightarrow> (jsstring \<rightharpoonup> result)" where
  "store cache (Returned k r) = cache(k \<mapsto> r)"
| "store cache _ = cache"

fun content_of :: "outcome \<Rightarrow> result" where
  "content_of (Replayed cached) = cached"
| "content_of (Failed err) = Json (Obj [(js ''error'', Str (String_of err))])"
| "content_of (Returned k r) = r"

text \<open>
  Each call ends with \<open>return this.wrapToolResult(call.id, ...)\<close>, outside the \<open>try\<close>
  that turns a failure into an error result: when \<open>JSON.stringify\<close> throws there, the
  promise of that call rejects. \<open>settled_of\<close> is what the promises of the calls settle
  with, in the order of the list.
\<close>

definition settled_of :: "jsval list \<Rightarrow> outcome list \<Rightarrow> (thrown + jsval) list" where
  "settled_of calls outs =
     map (\<lambda>(call, out). wrapToolResult (own call (js ''id'')) (content_of out)) (zip calls outs)"

text \<open>
  \<open>await Promise.all(promises)\<close>: the list of the values when every promise is
  fulfilled; otherwise it throws what a rejected promise was rejected with, and the
  values of the others are lost.
\<close>

fun Promise_all :: "(thrown + 'a) list \<Rightarrow> thrown + 'a list" where
  "Promise_all [] = Inr []"
| "Promise_all (Inl e # ps) = Inl e"
| "Promise_all (Inr v # ps) = (case Promise_all ps of Inl e \<Rightarrow> Inl e | Inr vs \<Rightarrow> Inr (v # vs))"

text \<open>
  What a run of the executor leaves: what each call settled with, the value of the
  \<open>await Promise.all\<close>, the cache, the world, and the handler calls that were made.
  A rejection does not undo the handler calls and the stores of the run.
\<close>

record 'w executed =
  settled :: "(thrown + jsval) list"
  toolResults :: "thrown + jsval list"
  cache_after :: "jsstring \<rightharpoonup> result"
  world_after :: 'w
  invoked :: "invocation list"

definition executeToolCalls ::
  "(jsstring \<rightharpoonup> result) \<Rightarrow> 'w config \<Rightarrow> jsval list \<Rightarrow> 'w \<Rightarrow> 'w executed" where
  "executeToolCalls cache cfg toolCalls w =
     (case run_calls cache cfg toolCalls w of
        (outs, w', invs) \<Rightarrow>
          \<lparr>settled = settled_of toolCalls outs,
           toolResults = Promise_all (settled_of toolCalls outs),
           cache_after = foldl store cache outs,
           world_after = w',
           invoked = invs\<rparr>)"

text \<open>
  The second part of \<open>handleToolCalls\<close> builds the body of the next request. The tool
  call references are taken from the \<open>message-end\<close> payload when it has any, from the
  accumulated calls otherwise; \<open>.map\<close> on a value that is not an array and a property
  read on \<open>null\<close> throw a \<open>TypeError\<close>.

  \<open>[...previousMessages, ...]\<close> asks \<open>previousMessages\<close> for its iterator: an array
  gives its elements, a string its code points, and any other value of the kind above is
  not iterable (a \<open>TypeError\<close>).
\<close>

fun code_points :: "jsstring \<Rightarrow> jsstring list" where
  "code_points [] = []"
| "code_points [c] = [[c]]"
| "code_points (c # d # cs) =
     (if is_high_surrogate c \<and> is_low_surrogate d then [c, d] # code_points cs
      else [c] # code_points (d # cs))"

fun spread :: "jsval \<Rightarrow> thrown + jsval list" where
  "spread (Arr xs) = Inr xs"
| "spread (Str s) = Inr (map Str (code_points s))"
| "spread _ = Inl (TypeError (js ''previousMessages is not iterable''))"

definition tool_call_ref :: "jsval \<Rightarrow> thrown + jsval" where
  "tool_call_ref tc =
     (if nullish tc then Inl (TypeError (js ''Cannot read properties of null''))
      else Inr (Obj [(js ''id'', js_or (own tc (js ''id'')) (own tc (js ''tool_call_id''))),
                     (js ''type'', Str (js ''function'')),
                     (js ''function'',
                      Obj [(js ''name'',
                            js_or (own tc (js ''name'')) (opt (own tc (js ''function'')) (js ''name''))),
                           (js ''arguments'',
                            Str (ensureJsonString
                                   (js_or (own tc (js ''arguments''))
                                      (opt (own tc (js ''function'')) (js ''arguments'')))))])]))"

fun map_throw :: "('a \<Rightarrow> thrown + 'b) \<Rightarrow> 'a list \<Rightarrow> thrown + 'b list" where
  "map_throw f [] = Inr []"
| "map_throw f (x # xs) =
     (case f x of
        Inl e \<Rightarrow> Inl e
      | Inr y \<Rightarrow> (case map_throw f xs of Inl e \<Rightarrow> Inl e | Inr ys \<Rightarrow> Inr (y # ys)))"

definition tool_call_refs :: "jsval \<Rightarrow> jsval list \<Rightarrow> thrown + jsval list" where
  "tool_call_refs assistantMessage toolCalls =
     (case js_or (opt assistantMessage (js ''tool_calls'')) (Arr toolCalls) of
        Arr tcs \<Rightarrow> map_throw tool_call_ref tcs
      | _ \<Rightarrow> Inl (TypeError (js ''map is not a function'')))"

definition nextBody ::
  "'w config \<Rightarrow> jsval list \<Rightarrow> jsval list \<Rightarrow> jsval list \<Rightarrow> jsval" where
  "nextBody cfg previousMessages refs results =
     Obj [(js ''model'', Str (modelName cfg)),
          (js ''messages'',
           Arr (previousMessages
                @ [Obj [(js ''role'', Str (js ''assistant'')), (js ''tool_calls'', Arr refs)]]
                @ results)),
          (js ''stream'', Bool True),
          (js ''tools'', transformTools (tools cfg))]"

text \<open>
  \<open>handleToolCalls\<close> ends with \<open>await this.processRequest(config, nextBody, subject)\<close>,
  after which nothing else happens. The model returns the body of that request (or the
  value thrown before it was built: by the \<open>await Promise.all\<close>, by the spread, or by
  the references) together with what the executor did; the request itself is issued by
  the caller, see \<open>processRequest\<close> below.
\<close>

definition handleToolCalls ::
  "(jsstring \<rightharpoonup> result) \<Rightarrow> jsval list \<Rightarrow> jsval \<Rightarrow> 'w config \<Rightarrow> jsval \<Rightarrow> 'w
     \<Rightarrow> (thrown + jsval) \<times> 'w executed" where
  "handleToolCalls cache toolCalls assistantMessage cfg previousMessages w =
     (let ex = executeToolCalls cache cfg toolCalls w
      in (case toolResults ex of
            Inl e \<Rightarrow> (Inl e, ex)
          | Inr results \<Rightarrow>
              (case spread previousMessages of
                 Inl e \<Rightarrow> (Inl e, ex)
               | Inr prev \<Rightarrow>
                   (case tool_call_refs assistantMessage toolCalls of
                      Inl e \<Rightarrow> (Inl e, ex)
                    | Inr refs \<Rightarrow> (Inr (nextBody cfg prev refs results), ex)))))"

subsection \<open>The stream reader\<close>

text \<open>
  What reaches the \<open>catch\<close> of \<open>processRequest\<close>, and from there the output channel,
  is an exception object, given by its \<open>name\<close> and its \<open>message\<close>: an \<open>Error\<close> that
  \<open>processRequest\<close> has made itself, a \<open>TypeError\<close>, or what \<open>fetch\<close> and
  \<open>reader.read()\<close> reject with, which is a \<open>TypeError\<close> for a network failure and the
  reason of the abort for an aborted request. The service aborts with \<open>abort()\<close>, without
  a reason of its own, so that reason is the \<open>DOMException\<close> named \<open>AbortError\<close>.
  Nothing that a tool handler throws comes here: the line loop catches it.
\<close>

datatype exception = Exception (error_name: jsstring) (error_message: jsstring)

text \<open>
  The output channel is an RxJS \<open>Subject\<close>: the notifications it has delivered, in
  order. Once it has completed or failed it is stopped and ignores what it is sent.
\<close>

datatype notification = Next jsval | Complete | Failure exception

fun is_Next :: "notification \<Rightarrow> bool" where
  "is_Next (Next _) = True"
| "is_Next _ = False"

definition isStopped :: "notification list \<Rightarrow> bool" where
  "isStopped s \<longleftrightarrow> s \<noteq> [] \<and> \<not> is_Next (last s)"

definition subject_next :: "notification list \<Rightarrow> jsval \<Rightarrow> notification list" where
  "subject_next s v = (if isStopped s then s else s @ [Next v])"

definition subject_complete :: "notification list \<Rightarrow> notification list" where
  "subject_complete s = (if isStopped s then s else s @ [Complete])"

definition subject_error :: "notification list \<Rightarrow> exception \<Rightarrow> notification list" where
  "subject_error s e = (if isStopped s then s else s @ [Failure e])"

text \<open>
  \<open>toolCallsMap\<close> is a JavaScript \<open>Map\<close>: its entries in insertion order. Keys are
  compared by \<open>SameValueZero\<close>: primitive values by their value, objects and arrays by
  identity, and the index of one parsed line is never the same object as the index of
  another line.
\<close>

fun primitive :: "jsval \<Rightarrow> bool" where
  "primitive (Arr _) = False"
| "primitive (Obj _) = False"
| "primitive _ = True"

definition same_key :: "jsval \<Rightarrow> jsval \<Rightarrow> bool" where
  "same_key k k' \<longleftrightarrow> primitive k \<and> k = k'"

fun map_get :: "(jsval \<times> jsval) list \<Rightarrow> jsval \<Rightarrow> jsval option" where
  "map_get [] k = None"
| "map_get ((k', v) # m) k = (if same_key k' k then Some v else map_get m k)"

fun map_set :: "(jsval \<times> jsval) list \<Rightarrow> jsval \<Rightarrow> jsval \<Rightarrow> (jsval \<times> jsval) list" where
  "map_set [] k v = [(k, v)]"
| "map_set ((k', v') # m) k v =
     (if same_key k' k then (k', v) # m else (k', v') # map_set m k v)"

definition map_values :: "(jsval \<times> jsval) list \<Rightarrow> jsval list" where
  "map_values m = map snd m"

text \<open>
  The state that \<open>readStream\<close> works on. \<open>abortController\<close> and \<open>toolCache\<close> are the
  fields of the service (controllers are numbered in the order of their creation, and
  \<open>aborted\<close> lists those whose signal has been aborted); \<open>currentEventType\<close> and
  \<open>toolCallsMap\<close> are the local variables of \<open>readStream\<close>; \<open>subject\<close> is the output
  channel; \<open>world\<close> is what the tool handlers act on. \<open>invocations\<close> and \<open>requests\<close>
  record the handler calls and the \<open>fetch\<close> calls (the body and the controller whose
  signal was attached) that have been made.
\<close>

record 'w state =
  abortController :: "nat option"
  aborted :: "nat list"
  created :: nat
  toolCache :: "jsstring \<rightharpoonup> result"
  world :: 'w
  currentEventType :: jsval
  toolCallsMap :: "(jsval \<times> jsval) list"
  subject :: "notification list"
  invocations :: "invocation list"
  requests :: "(jsval \<times> nat option) list"

text \<open>
  One step of the reader: it goes on with the next line (\<open>Go\<close>), or an exception
  reached the \<open>catch\<close> of the line loop (\<open>Caught\<close>, after which it goes on as well), or
  it returns (\<open>Stop\<close>), with the body of the request that \<open>handleToolCalls\<close> issues
  before the return, if any.
\<close>

datatype 'w step = Go "'w state" | Caught thrown "'w state" | Stop "'w state" "jsval option"

definition deltaStart_of :: "jsval \<Rightarrow> jsval" where
  "deltaStart_of parsed = opt (opt (own parsed (js ''delta'')) (js ''message'')) (js ''tool_calls'')"

definition deltaArgs_of :: "jsval \<Rightarrow> jsval" where
  "deltaArgs_of parsed =
     opt (opt (opt (opt (own parsed (js ''delta'')) (js ''message'')) (js ''tool_calls''))
            (js ''function'')) (js ''arguments'')"

definition text_of :: "jsval \<Rightarrow> jsval" where
  "text_of parsed =
     js_or (opt (opt (opt (own parsed (js ''delta'')) (js ''message'')) (js ''content'')) (js ''text''))
       (own parsed (js ''text''))"

definition eventType_of :: "jsval \<Rightarrow> jsval \<Rightarrow> jsval" where
  "eventType_of current parsed = js_or (own parsed (js ''type'')) current"

text \<open>The \<open>switch (eventType)\<close> of \<open>readStream\<close>, on a parsed line.\<close>

definition dispatch :: "'w config \<Rightarrow> jsval \<Rightarrow> 'w state \<Rightarrow> jsval \<Rightarrow> 'w step" where
  "dispatch cfg previousMessages st parsed =
     (let eventType = eventType_of (currentEventType st) parsed
      in if eventType = Str (js ''content-delta'') \<or> eventType = Str (js ''text-generation'') then
           (if truthy (text_of parsed)
            then Go (st\<lparr>subject := subject_next (subject st) (text_of parsed)\<rparr>)
            else Go st)
         else if eventType = Str (js ''tool-call-start'') then
           (let deltaStart = deltaStart_of parsed
            in if truthy deltaStart then
                 (case get (own deltaStart (js ''function'')) (js ''name'') of
                    Inl e \<Rightarrow> Caught e st
                  | Inr nm \<Rightarrow>
                      Go (st\<lparr>toolCallsMap :=
                            map_set (toolCallsMap st) (own parsed (js ''index''))
                              (Obj [(js ''id'', own deltaStart (js ''id'')),
                                    (js ''name'', nm),
                                    (js ''arguments'',
                                     js_or (own (own deltaStart (js ''function'')) (js ''arguments''))
                                       (Str []))])\<rparr>))
               else Go st)
         else if eventType = Str (js ''tool-call-delta'') then
           (case map_get (toolCallsMap st) (own parsed (js ''index'')) of
              None \<Rightarrow> Go st
            | Some call \<Rightarrow>
                if truthy (deltaArgs_of parsed) then
                  Go (st\<lparr>toolCallsMap :=
                        map_set (toolCallsMap st) (own parsed (js ''index''))
                          (Obj [(js ''id'', own call (js ''id'')),
                                (js ''name'', own call (js ''name'')),
                                (js ''arguments'',
                                 js_plus (own call (js ''arguments'')) (deltaArgs_of parsed))])\<rparr>)
                else Go st)
         else if eventType = Str (js ''message-end'') then
           (let toolCalls = map_values (toolCallsMap st)
            in if length toolCalls > 0 then
                 (case handleToolCalls (toolCache st) toolCalls (own parsed (js ''message''))
                         cfg previousMessages (world st) of
                    (res, ex) \<Rightarrow>
                      (let st' = st\<lparr>toolCache := cache_after ex, world := world_after ex,
                                      invocations := invocations st @ invoked ex\<rparr>
                       in case res of
                            Inl e \<Rightarrow> Caught e st'
                          | Inr body \<Rightarrow> Stop st' (Some body)))
               else Stop (st\<lparr>subject := subject_complete (subject st)\<rparr>) None)
         else if eventType = Str (js ''stream-end'') then
           Stop (st\<lparr>subject := subject_complete (subject st)\<rparr>) None
         else Go st)"

definition cleanLine_of :: "jsstring \<Rightarrow> jsstring" where
  "cleanLine_of trimmed =
     (if js_startsWith trimmed (js ''data: '') then js_substring trimmed 6 else trimmed)"

text \<open>The body of \<open>for (const line of lines)\<close>. Whatever is thrown inside its \<open>try\<close> is
  caught and logged, and the loop goes on.\<close>

definition process_line :: "'w config \<Rightarrow> jsval \<Rightarrow> 'w state \<Rightarrow> jsstring \<Rightarrow> 'w step" where
  "process_line cfg previousMessages st line =
     (let trimmed = js_trim line
      in if \<not> truthy (Str trimmed) then Go st
         else if js_startsWith trimmed (js ''event:'') then
           Go (st\<lparr>currentEventType := Str (js_trim (js_substring trimmed 6))\<rparr>)
         else if \<not> js_startsWith (cleanLine_of trimmed) (js ''{'') then Go st
         else (case JSON_parse (cleanLine_of trimmed) of
                 None \<Rightarrow> Go st
               | Some parsed \<Rightarrow>
                   (case dispatch cfg previousMessages st parsed of
                      Caught e st' \<Rightarrow> Go st'
                    | r \<Rightarrow> r)))"

fun process_lines :: "'w config \<Rightarrow> jsval \<Rightarrow> 'w state \<Rightarrow> jsstring list \<Rightarrow> 'w step" where
  "process_lines cfg previousMessages st [] = Go st"
| "process_lines cfg previousMessages st (line # lines) =
     (case process_line cfg previousMessages st line of
        Go st' \<Rightarrow> process_lines cfg previousMessages st' lines
      | Caught e st' \<Rightarrow> process_lines cfg previousMessages st' lines
      | Stop st' b \<Rightarrow> Stop st' b)"

text \<open>
  A response body: the text of the chunks that the reads deliver (what the streaming
  \<open>TextDecoder\<close> makes of their bytes), and how the reads end: \<open>done\<close>, or a read that
  rejects (a network failure, or the \<open>AbortError\<close> of an aborted request).
\<close>

record stream =
  chunks :: "jsstring list"
  ending :: "exception option"

text \<open>\<open>lines.pop() || ''\<close> and the lines that stay.\<close>

definition pop :: "jsstring list \<Rightarrow> jsstring \<times> jsstring list" where
  "pop lines = (if lines = [] then ([], []) else (last lines, butlast lines))"

text \<open>How \<open>readStream\<close> ends: it returns, or it throws to its caller.\<close>

datatype 'w ended = Returns "'w state" "jsval option" | Throws exception "'w state"

fun read_loop ::
  "'w config \<Rightarrow> jsval \<Rightarrow> 'w state \<Rightarrow> jsstring \<Rightarrow> jsstring list \<Rightarrow> exception option \<Rightarrow> 'w ended"
  where
  "read_loop cfg previousMessages st buffer [] end =
     (case end of
        None \<Rightarrow> Returns (st\<lparr>subject := subject_complete (subject st)\<rparr>) None
      | Some e \<Rightarrow> Throws e st)"
| "read_loop cfg previousMessages st buffer (chunk # rest) end =
     (case pop (js_split (buffer @ chunk)) of
        (buffer', lines) \<Rightarrow>
          (case process_lines cfg previousMessages st lines of
             Go st' \<Rightarrow> read_loop cfg previousMessages st' buffer' rest end
           | Caught e st' \<Rightarrow> read_loop cfg previousMessages st' buffer' rest end
           | Stop st' b \<Rightarrow> Returns st' b))"

definition readStream :: "stream \<Rightarrow> 'w config \<Rightarrow> jsval \<Rightarrow> 'w state \<Rightarrow> 'w ended" where
  "readStream s cfg previousMessages st =
     read_loop cfg previousMessages (st\<lparr>toolCallsMap := [], currentEventType := Null\<rparr>) []
       (chunks s) (ending s)"

subsection \<open>Requests\<close>

text \<open>
  What \<open>fetch\<close> does with a request is given from outside: it rejects (a network
  failure, or an \<open>AbortError\<close> when the signal is aborted), or it delivers a response.
  The exchanges of one conversation are listed in the order of the requests; a request
  beyond the list finds no network.
\<close>

abbreviation Aborted :: exception where
  "Aborted \<equiv> Exception (js ''AbortError'') (js ''The operation was aborted.'')"

abbreviation NetworkError :: exception where
  "NetworkError \<equiv> Exception (js ''TypeError'') (js ''Failed to fetch'')"

record response =
  ok :: bool
  status :: int
  responseText :: jsstring
  responseBody :: "stream option"

datatype fetched = Rejects exception | Responds response

text \<open>The \<open>catch\<close> of \<open>processRequest\<close>.\<close>

definition catch_request :: "'w state \<Rightarrow> exception \<Rightarrow> 'w state" where
  "catch_request st e =
     (if error_name e = js ''AbortError''
      then st\<lparr>subject := subject_complete (subject st)\<rparr>
      else st\<lparr>subject := subject_error (subject st) e\<rparr>)"

definition api_error :: "response \<Rightarrow> exception" where
  "api_error r =
     Exception (js ''Error'')
       (js ''Cohere API Error '' @ num_to_string (norm10 (status r) 0) @ js '': '' @ responseText r)"

text \<open>
  \<open>processRequest\<close>. Its \<open>catch\<close> handles whatever its \<open>try\<close> throws, so the promise
  it returns is always fulfilled. When the reader returns with the body of a
  continuation, \<open>handleToolCalls\<close> has called \<open>processRequest\<close> with it; that call is
  the last thing that happens in \<open>handleToolCalls\<close> and in the reader, so it is made
  here. \<open>body.messages\<close> is read, after the response has been checked, for the call of
  \<open>readStream\<close>.
\<close>

fun processRequest :: "'w config \<Rightarrow> jsval \<Rightarrow> 'w state \<Rightarrow> fetched list \<Rightarrow> 'w state" where
  "processRequest cfg b st [] =
     catch_request (st\<lparr>requests := requests st @ [(b, abortController st)]\<rparr>) NetworkError"
| "processRequest cfg b st (r # rs) =
     (let st1 = st\<lparr>requests := requests st @ [(b, abortController st)]\<rparr>
      in case r of
           Rejects e \<Rightarrow> catch_request st1 e
         | Responds resp \<Rightarrow>
             if \<not> ok resp then catch_request st1 (api_error resp)
             else (case responseBody resp of
                     None \<Rightarrow>
                       catch_request st1
                         (Exception (js ''Error'') (js ''Response body is unavailable''))
                   | Some s \<Rightarrow>
                       if nullish b then
                         catch_request st1
                           (Exception (js ''TypeError'') (js ''Cannot read properties of null or undefined''))
                       else
                         (case readStream s cfg (own b (js ''messages'')) st1 of
                            Throws e st2 \<Rightarrow> catch_request st2 e
                          | Returns st2 None \<Rightarrow> st2
                          | Returns st2 (Some next) \<Rightarrow> processRequest cfg next st2 rs)))"

subsection \<open>The cancellation gate\<close>

definition stopStream :: "'w state \<Rightarrow> 'w state" where
  "stopStream st =
     st\<lparr>aborted := (case abortController st of
                       None \<Rightarrow> aborted st
                     | Some c \<Rightarrow> List.insert c (aborted st)),
        abortController := None\<rparr>"

definition first_body :: "'w config \<Rightarrow> jsval list \<Rightarrow> jsval" where
  "first_body cfg messages =
     Obj [(js ''model'', Str (modelName cfg)),
          (js ''messages'', Arr messages),
          (js ''stream'', Bool True),
          (js ''tools'', transformTools (tools cfg)),
          (js ''documents'', documents cfg)]"

text \<open>
  \<open>generateResponse\<close> up to its call of \<open>processRequest\<close>: the running stream is
  stopped, a new controller is installed and a new \<open>Subject\<close> is created.
\<close>

definition begin_response :: "'w state \<Rightarrow> 'w state" where
  "begin_response st =
     (let st1 = stopStream st;
          st2 = st1\<lparr>abortController := Some (created st1), created := Suc (created st1)\<rparr>
      in st2\<lparr>subject := []\<rparr>)"

text \<open>\<open>generateResponse\<close>, with the request and its continuations run to their end.\<close>

definition generateResponse :: "'w config \<Rightarrow> jsval list \<Rightarrow> 'w state \<Rightarrow> fetched list \<Rightarrow> 'w state" where
  "generateResponse cfg messages st net =
     processRequest cfg (first_body cfg messages) (begin_response st) net"

definition initial :: "'w \<Rightarrow> 'w state" where
  "initial w =
     \<lparr>abortController = None, aborted = [], created = 0, toolCache = Map.empty, world = w,
      currentEventType = Null, toolCallsMap = [], subject = [], invocations = [], requests = []\<rparr>"

subsection \<open>Conversations in flight\<close>

text \<open>
  \<open>generateResponse\<close> returns as soon as its request is under way. The conversation
  it started goes on whenever one of its \<open>await\<close>s is resolved, and between two such
  steps the caller may use the gate again. A conversation waits in one of three places:
  in \<open>processRequest\<close> for \<open>fetch\<close>, in \<open>readStream\<close> for \<open>reader.read()\<close>, or in
  \<open>handleToolCalls\<close> for the \<open>Promise.all\<close> of the tool handlers. With its stream it
  keeps the controller whose signal \<open>fetch\<close> was given: \<open>this.abortController?.signal\<close>
  is read when \<open>fetch\<close> is called. A conversation is closed once its \<open>Subject\<close> has
  completed or failed.
\<close>

datatype waiting =
    AwaitFetch "nat option"
  | AwaitRead "nat option"
  | AwaitTools "nat option"
  | Closed notification

text \<open>
  What can happen next: the caller calls \<open>generateResponse\<close> or \<open>stopStream\<close>; or, for
  the conversation with the given number, the response arrives, a read delivers lines
  that end in a \<open>message-end\<close> with tool calls accumulated, a read delivers the end of the
  stream, the tool handlers have all settled, or the abort of its signal rejects the
  pending \<open>fetch\<close> or read.
\<close>

datatype happening =
    CallGenerate
  | CallStop
  | ResponseArrives nat
  | ToolCallsArrive nat
  | StreamEnds nat
  | ToolsSettle nat
  | AbortSurfaces nat

definition signal_aborted :: "'w state \<Rightarrow> nat option \<Rightarrow> bool" where
  "signal_aborted st sig = (case sig of None \<Rightarrow> False | Some c \<Rightarrow> c \<in> set (aborted st))"

definition resume :: "'w state \<Rightarrow> happening \<Rightarrow> waiting \<Rightarrow> waiting" where
  "resume st h t =
     (case (h, t) of
        (ResponseArrives _, AwaitFetch sig) \<Rightarrow> if signal_aborted st sig then t else AwaitRead sig
      | (ToolCallsArrive _, AwaitRead sig) \<Rightarrow> if signal_aborted st sig then t else AwaitTools sig
      | (StreamEnds _, AwaitRead sig) \<Rightarrow> if signal_aborted st sig then t else Closed Complete
      | (ToolsSettle _, AwaitTools sig) \<Rightarrow> AwaitFetch (abortController st)
      | (AbortSurfaces _, AwaitFetch sig) \<Rightarrow> if signal_aborted st sig then Closed Complete else t
      | (AbortSurfaces _, AwaitRead sig) \<Rightarrow> if signal_aborted st sig then Closed Complete else t
      | _ \<Rightarrow> t)"

fun subject_of :: "happening \<Rightarrow> nat option" where
  "subject_of CallGenerate = None"
| "subject_of CallStop = None"
| "subject_of (ResponseArrives k) = Some k"
| "subject_of (ToolCallsArrive k) = Some k"
| "subject_of (StreamEnds k) = Some k"
| "subject_of (ToolsSettle k) = Some k"
| "subject_of (AbortSurfaces k) = Some k"

definition happen :: "'w state \<times> waiting list \<Rightarrow> happening \<Rightarrow> 'w state \<times> waiting list" where
  "happen s h =
     (case s of
        (st, ts) \<Rightarrow>
          (case subject_of h of
             Some k \<Rightarrow> if k < length ts then (st, ts[k := resume st h (ts ! k)]) else (st, ts)
           | None \<Rightarrow>
               if h = CallStop then (stopStream st, ts)
               else (begin_response st, ts @ [AwaitFetch (abortController (begin_response st))])))"

text \<open>A conversation has a live stream while it waits for \<open>fetch\<close> or for a read and
  the signal of that request has not been aborted.\<close>

definition live :: "'w state \<Rightarrow> waiting \<Rightarrow> bool" where
  "live st t =
     (case t of
        AwaitFetch sig \<Rightarrow> \<not> signal_aborted st sig
      | AwaitRead sig \<Rightarrow> \<not> signal_aborted st sig
      | _ \<Rightarrow> False)"

definition live_streams :: "'w state \<times> waiting list \<Rightarrow> nat" where
  "live_streams s = length (filter (live (fst s)) (snd s))"

subsection \<open>Notions used in the statements\<close>

text \<open>
  A line \<open>carries\<close> a value when the line loop gets as far as its \<open>switch\<close> with that
  value: the trimmed line is not empty and not an \<open>event:\<close> header, and what is left
  after the \<open>data: \<close> prefix starts with a brace and parses.
\<close>

definition carries :: "jsstring \<Rightarrow> jsval \<Rightarrow> bool" where
  "carries line parsed \<longleftrightarrow>
     truthy (Str (js_trim line)) \<and> \<not> js_startsWith (js_trim line) (js ''event:'') \<and>
     js_startsWith (cleanLine_of (js_trim line)) (js ''{'') \<and>
     JSON_parse (cleanLine_of (js_trim line)) = Some parsed"

text \<open>The entries of the accumulator that \<open>get(i)\<close> and \<open>set(i, ...)\<close> may find.\<close>

definition entries_at :: "(jsval \<times> jsval) list \<Rightarrow> jsval \<Rightarrow> (jsval \<times> jsval) list" where
  "entries_at m i = filter (\<lambda>(k, v). same_key k i) m"

text \<open>
  Under the current SSE event type \<open>current\<close>, a parsed line is a \<open>tool-call-delta\<close> at
  index \<open>i\<close> with a string of arguments, or it is an event that is neither terminal nor
  a \<open>tool-call-start\<close> or \<open>tool-call-delta\<close> at index \<open>i\<close>.
\<close>

definition delta_at :: "jsval \<Rightarrow> jsval \<Rightarrow> jsval \<Rightarrow> bool" where
  "delta_at current i parsed \<longleftrightarrow>
     eventType_of current parsed = Str (js ''tool-call-delta'') \<and>
     own parsed (js ''index'') = i \<and> is_Str (deltaArgs_of parsed)"

definition elsewhere :: "jsval \<Rightarrow> jsval \<Rightarrow> jsval \<Rightarrow> bool" where
  "elsewhere current i parsed \<longleftrightarrow>
     eventType_of current parsed \<noteq> Str (js ''message-end'') \<and>
     eventType_of current parsed \<noteq> Str (js ''stream-end'') \<and>
     ((eventType_of current parsed = Str (js ''tool-call-start'') \<or>
       eventType_of current parsed = Str (js ''tool-call-delta''))
      \<longrightarrow> own parsed (js ''index'') \<noteq> i)"

text \<open>
  Data for the examples: a call of the tool \<open>lookup\<close>; a registry whose \<open>lookup\<close> counts
  its invocations in the world; one whose \<open>lookup\<close> throws while the world says that
  its backend is down; and a tool \<open>balance\<close> whose handler returns a \<open>BigInt\<close>, with a
  call of it.
\<close>

abbreviation lookup_call :: "string \<Rightarrow> jsval" where
  "lookup_call i \<equiv>
     Obj [(js ''id'', Str (js i)), (js ''name'', Str (js ''lookup'')),
          (js ''arguments'', Str (js ''{\"q\":1}''))]"

abbreviation counting_lookup :: "int tool" where
  "counting_lookup \<equiv>
     \<lparr>name = js ''lookup'', description = Str (js ''Looks a record up''),
      parameters = Undefined,
      handler = Some (\<lambda>params n. (Inr (Json (Str (js ''found''))), n + 1))\<rparr>"

abbreviation flaky_lookup :: "bool tool" where
  "flaky_lookup \<equiv>
     \<lparr>name = js ''lookup'', description = Str (js ''Looks a record up''),
      parameters = Undefined,
      handler = Some (\<lambda>params up. if up then (Inr (Json (Str (js ''found''))), up)
                                    else (Inl (Error (js ''backend down'')), up))\<rparr>"

abbreviation balance_tool :: "int tool" where
  "balance_tool \<equiv>
     \<lparr>name = js ''balance'', description = Str (js ''Reads a balance''),
      parameters = Undefined,
      handler = Some (\<lambda>params n. (Inr Unserializable, n + 1))\<rparr>"

abbreviation balance_call :: "string \<Rightarrow> jsval" where
  "balance_call i \<equiv>
     Obj [(js ''id'', Str (js i)), (js ''name'', Str (js ''balance'')),
          (js ''arguments'', Str [])]"

abbreviation cfg_with :: "'w tool list option \<Rightarrow> 'w config" where
  "cfg_with ts \<equiv>
     \<lparr>apiKey = js ''key'', modelName = js ''command-r'', systemPrompt = [],
      apiUrl = js ''https://api.cohere.com/v2/chat'', tools = ts, documents = Undefined\<rparr>"

abbreviation start_event :: "jsval \<Rightarrow> string \<Rightarrow> string \<Rightarrow> string \<Rightarrow> jsval" where
  "start_event i a n s \<equiv>
     Obj [(js ''type'', Str (js ''tool-call-start'')), (js ''index'', i),
          (js ''delta'',
           Obj [(js ''message'',
                 Obj [(js ''tool_calls'',
                       Obj [(js ''id'', Str (js a)),
                            (js ''function'',
                             Obj [(js ''name'', Str (js n)), (js ''arguments'', Str (js s))])])])])]"

abbreviation delta_event :: "jsval \<Rightarrow> string \<Rightarrow> jsval" where
  "delta_event i d \<equiv>
     Obj [(js ''type'', Str (js ''tool-call-delta'')), (js ''index'', i),
          (js ''delta'',
           Obj [(js ''message'',
                 Obj [(js ''tool_calls'',
                       Obj [(js ''function'', Obj [(js ''arguments'', Str (js d))])])])])]"

abbreviation text_event :: "string \<Rightarrow> jsval" where
  "text_event t \<equiv>
     Obj [(js ''type'', Str (js ''content-delta'')),
          (js ''delta'',
           Obj [(js ''message'', Obj [(js ''content'', Obj [(js ''text'', Str (js t))])])])]"

fun state_of :: "'w ended \<Rightarrow> 'w state" where
  "state_of (Returns st b) = st"
| "state_of (Throws e st) = st"

fun step_state :: "'w step \<Rightarrow> 'w state" where
  "step_state (Go st) = st"
| "step_state (Caught e st) = st"
| "step_state (Stop st b) = st"

section \<open>Properties of the JavaScript layer\<close>

lemma hexval_hex_digit_all: "list_all (\<lambda>n. hexval (hex_digit n) = Some n) [0..15]"
  by code_simp

lemma hexval_hex_digit: "0 \<le> n \<Longrightarrow> n < 16 \<Longrightarrow> hexval (hex_digit n) = Some n"
  using hexval_hex_digit_all unfolding list_all_iff by simp

lemma hex_arith:
  fixes n :: int
  assumes "0 \<le> n" "n < 65536"
  shows "((n div 4096 mod 16 * 16 + n div 256 mod 16) * 16 + n div 16 mod 16) * 16 + n mod 16 = n"
proof -
  define q1 where "q1 = n div 16"
  define r0 where "r0 = n mod 16"
  define q2 where "q2 = q1 div 16"
  define r1 where "r1 = q1 mod 16"
  define q3 where "q3 = q2 div 16"
  define r2 where "r2 = q2 mod 16"
  have f1: "n = 16 * q1 + r0" unfolding q1_def r0_def by simp
  have f2: "q1 = 16 * q2 + r1" unfolding q2_def r1_def by simp
  have f3: "q2 = 16 * q3 + r2" unfolding q3_def r2_def by simp
  have a: "n div 256 = q2" and b: "n div 4096 = q3"
    unfolding q3_def q2_def q1_def by (simp_all add: zdiv_zmult2_eq)
  have "0 \<le> q3" "q3 < 16" using assms unfolding b [symmetric] by simp_all
  then have e: "q3 mod 16 = q3" by simp
  have "((q3 * 16 + r2) * 16 + r1) * 16 + r0 = n"
    using f1 f2 f3 by simp
  then show ?thesis
    unfolding a b e by (simp only: q1_def [symmetric] r0_def [symmetric] r1_def [symmetric] r2_def [symmetric])
qed


lemma unhex4_escape: "unhex4 (hex_digit (uint c div 4096 mod 16)) (hex_digit (uint c div 256 mod 16))
   (hex_digit (uint c div 16 mod 16)) (hex_digit (uint c mod 16)) = Some (c::jschar)"
proof -
  have r: "0 \<le> uint c" "uint c < 65536" using uint_lt2p [of c] by simp_all
  have h: "hexval (hex_digit (uint c div 4096 mod 16)) = Some (uint c div 4096 mod 16)"
    "hexval (hex_digit (uint c div 256 mod 16)) = Some (uint c div 256 mod 16)"
    "hexval (hex_digit (uint c div 16 mod 16)) = Some (uint c div 16 mod 16)"
    "hexval (hex_digit (uint c mod 16)) = Some (uint c mod 16)"
    by (simp_all add: hexval_hex_digit)
  show ?thesis
    unfolding unhex4_def h by (simp only: prod.case option.case hex_arith [OF r] word_of_int_uint)
qed



lemma lex_unicode_escape: "lex_string (unicode_escape c @ rest) = consopt c (lex_string rest)"
  by (simp add: unicode_escape_def Let_def unhex4_escape)

lemma surrogate_plain:
  "0xD800 \<le> (d::jschar) \<Longrightarrow> d \<noteq> 0x22 \<and> d \<noteq> 0x5C \<and> \<not> d < 0x20"
  by (auto simp: word_le_def word_less_def)


lemma lex_string_quote: "lex_string (quote_chars t @ 0x22 # r) = Some (t, r)"
proof (induction "length t" arbitrary: t rule: less_induct)
  case less
  show ?case
  proof (cases t)
    case Nil
    then show ?thesis by simp
  next
    case (Cons c cs)
    have IH: "\<And>u. length u \<le> length cs \<Longrightarrow> lex_string (quote_chars u @ 0x22 # r) = Some (u, r)"
      using less Cons by simp
    have IHcs: "lex_string (quote_chars cs @ 0x22 # r) = Some (cs, r)"
      by (rule IH) simp
    show ?thesis
    proof (cases "c = 0x08 \<or> c = 0x09 \<or> c = 0x0A \<or> c = 0x0C \<or> c = 0x0D \<or> c = 0x22 \<or> c = 0x5C")
      case True
      then show ?thesis unfolding Cons using IHcs
        by (elim disjE) (simp_all add: unescape_def consopt_def)
    next
      case nt: False
      show ?thesis
      proof (cases "c < 0x20")
        case True
        then show ?thesis unfolding Cons using nt IHcs
          by (simp add: lex_unicode_escape consopt_def)
      next
        case nc: False
        show ?thesis
        proof (cases "is_high_surrogate c")
          case hs: True
          show ?thesis
          proof (cases cs)
            case Nil
            then show ?thesis unfolding Cons using nt nc hs
              by (simp add: lex_unicode_escape consopt_def)
          next
            case cs: (Cons d ds)
            have IHds: "lex_string (quote_chars ds @ 0x22 # r) = Some (ds, r)"
              by (rule IH) (simp add: cs)
            show ?thesis
            proof (cases "is_low_surrogate d")
              case True
              then have "0xD800 \<le> d" by (simp add: is_low_surrogate_def word_le_def)
              from surrogate_plain [OF this] show ?thesis
                unfolding Cons cs using nt nc hs True IHds by (simp add: consopt_def)
            next
              case False
              then show ?thesis
                unfolding Cons using nt nc hs cs IHcs by (simp add: lex_unicode_escape consopt_def)
            qed
          qed
        next
          case nh: False
          show ?thesis
          proof (cases "is_low_surrogate c")
            case True
            then show ?thesis unfolding Cons using nt nc nh IHcs
              by (simp add: lex_unicode_escape consopt_def)
          next
            case False
            then show ?thesis unfolding Cons using nt nc nh IHcs by (simp add: consopt_def)
          qed
        qed
      qed
    qed
  qed
qed


lemma JSON_parse_quote: "JSON_parse (QuoteJSONString t) = Some (Str t)"
  by (simp add: JSON_parse_def QuoteJSONString_def lex.simps is_json_ws_def lex_string_quote
      tcons_def json_value.simps json_after.simps)

lemma JSON_parse_empty: "JSON_parse [] = None"
  by (simp add: JSON_parse_def lex.simps json_value.simps)



section \<open>ensureJsonString\<close>

lemma js_trim_empty_iff: "js_trim s = [] \<longleftrightarrow> list_all is_js_space s"
proof -
  have "dropWhile is_js_space (rev (dropWhile is_js_space s)) = [] \<longleftrightarrow> dropWhile is_js_space s = []"
  proof (cases "dropWhile is_js_space s")
    case Nil
    show ?thesis unfolding Nil by simp
  next
    case (Cons x xs)
    then have "\<not> is_js_space x" using hd_dropWhile [of is_js_space s] by simp
    moreover have "x \<in> set (rev (dropWhile is_js_space s))" using Cons by simp
    ultimately show ?thesis using Cons by (auto simp: dropWhile_eq_Nil_conv simp del: set_rev)
  qed
  then show ?thesis
    by (auto simp: js_trim_def dropWhile_eq_Nil_conv list_all_iff dest: set_dropWhileD)
qed

text \<open>
  Claim C8. \<open>ensureJsonString\<close> returns the trimmed input unchanged when the trimmed
  input parses as JSON; it returns the two characters \<open>{}\<close> for \<open>undefined\<close>, for the
  empty string and for a string of white space only; and for a string whose trimmed text
  is not empty and does not parse, it returns the JSON string literal of the trimmed
  text, which parses back to exactly that text.
\<close>

theorem ensureJsonString_normalizes:
  "(JSON_parse (js_trim s) \<noteq> None \<longrightarrow> ensureJsonString (Str s) = js_trim s) \<and>
   ensureJsonString Undefined = js ''{}'' \<and>
   ensureJsonString (Str []) = js ''{}'' \<and>
   (list_all is_js_space s \<longrightarrow> ensureJsonString (Str s) = js ''{}'') \<and>
   (js_trim s \<noteq> [] \<and> JSON_parse (js_trim s) = None \<longrightarrow>
      ensureJsonString (Str s) = QuoteJSONString (js_trim s) \<and>
      JSON_parse (ensureJsonString (Str s)) = Some (Str (js_trim s)))"
proof (intro conjI impI)
  assume p: "JSON_parse (js_trim s) \<noteq> None"
  then have "js_trim s \<noteq> []" using JSON_parse_empty by auto
  moreover from this have "s \<noteq> []" by (auto simp: js_trim_def)
  ultimately show "ensureJsonString (Str s) = js_trim s"
    using p by (auto simp: ensureJsonString_def Let_def)
next
  show "ensureJsonString Undefined = js ''{}''" by (simp add: ensureJsonString_def)
next
  show "ensureJsonString (Str []) = js ''{}''" by (simp add: ensureJsonString_def)
next
  assume "list_all is_js_space s"
  then have "js_trim s = []" by (simp add: js_trim_empty_iff)
  then show "ensureJsonString (Str s) = js ''{}''"
    by (simp add: ensureJsonString_def Let_def)
next
  assume a: "js_trim s \<noteq> [] \<and> JSON_parse (js_trim s) = None"
  then have "s \<noteq> []" by (auto simp: js_trim_def)
  with a show q: "ensureJsonString (Str s) = QuoteJSONString (js_trim s)"
    by (simp add: ensureJsonString_def Let_def JSON_stringify_def)
  show "JSON_parse (ensureJsonString (Str s)) = Some (Str (js_trim s))"
    unfolding q by (rule JSON_parse_quote)
qed

theorem ensureJsonString_normalizes_witness:
  "(JSON_parse (js_trim (js '' {\"a\":1} '')) \<noteq> None \<and>
    js_trim (js '' {\"a\":1} '') = js ''{\"a\":1}'' \<and>
    ensureJsonString (Str (js '' {\"a\":1} '')) = js_trim (js '' {\"a\":1} '')) \<and>
   (list_all is_js_space (js ''  '') \<and> ensureJsonString (Str (js ''  '')) = js ''{}'') \<and>
   (js_trim (js '' a\"b '') \<noteq> [] \<and> JSON_parse (js_trim (js '' a\"b '')) = None \<and>
    js_trim (js '' a\"b '') = js ''a\"b'' \<and>
    JSON_parse (ensureJsonString (Str (js '' a\"b ''))) = Some (Str (js_trim (js '' a\"b ''))))"
proof -
  have t1: "js_trim (js '' {\"a\":1} '') = js ''{\"a\":1}''" by code_simp
  have h1: "JSON_parse (js_trim (js '' {\"a\":1} '')) \<noteq> None" by code_simp
  have h2: "list_all is_js_space (js ''  '')" by code_simp
  have t3: "js_trim (js '' a\"b '') = js ''a\"b''" by code_simp
  have h3: "js_trim (js '' a\"b '') \<noteq> [] \<and> JSON_parse (js_trim (js '' a\"b '')) = None"
    by code_simp
  have c1: "ensureJsonString (Str (js '' {\"a\":1} '')) = js_trim (js '' {\"a\":1} '')"
    using ensureJsonString_normalizes [of "js '' {\"a\":1} ''"] h1 by blast
  have c2: "ensureJsonString (Str (js ''  '')) = js ''{}''"
    using ensureJsonString_normalizes [of "js ''  ''"] h2 by blast
  have c3: "JSON_parse (ensureJsonString (Str (js '' a\"b ''))) = Some (Str (js_trim (js '' a\"b '')))"
    using ensureJsonString_normalizes [of "js '' a\"b ''"] h3 by blast
  from t1 h1 h2 t3 h3 c1 c2 c3 show ?thesis by blast
qed

section \<open>The tool executor\<close>

lemma run_calls_length: "run_calls cache cfg calls w = (outs, w', invs) \<Longrightarrow> length outs = length calls"
  by (induction calls arbitrary: w outs w' invs) (auto split: prod.splits)

lemma run_calls_append:
  "run_calls cache cfg (xs @ ys) w =
     (case run_calls cache cfg xs w of
        (o1, w1, i1) \<Rightarrow>
          (case run_calls cache cfg ys w1 of (o2, w2, i2) \<Rightarrow> (o1 @ o2, w2, i1 @ i2)))"
  by (induction xs arbitrary: w) (auto split: prod.splits)

lemma wrapToolResult_Json:
  "wrapToolResult i (Json v) =
     Inr (Obj [(js ''role'', Str (js ''tool'')), (js ''tool_call_id'', i),
               (js ''content'', JSON_stringify v)])"
  by (simp add: wrapToolResult_def)

lemma wrapToolResult_Unserializable: "\<exists>e. wrapToolResult i Unserializable = Inl e"
  by (simp add: wrapToolResult_def)



lemma Promise_all_nth: "Promise_all ps = Inr vs \<Longrightarrow> i < length ps \<Longrightarrow> ps ! i = Inr (vs ! i)"
proof (induction ps arbitrary: vs i)
  case Nil
  then show ?case by simp
next
  case (Cons p ps)
  then show ?case by (cases p; cases i) (auto split: sum.splits)
qed

lemma Promise_all_Inr: "Promise_all (map Inr vs) = Inr vs"
  by (induction vs) auto

lemma Promise_all_rejected: "Inl e \<in> set ps \<Longrightarrow> \<exists>e'. Promise_all ps = Inl e'"
proof (induction ps)
  case Nil
  then show ?case by simp
next
  case (Cons p ps)
  then show ?case by (cases p) (auto split: sum.splits)
qed

lemma settled_of_length: "length outs = length calls \<Longrightarrow> length (settled_of calls outs) = length calls"
  by (simp add: settled_of_def)



lemma handleToolCalls_executed:
  "snd (handleToolCalls cache toolCalls msg cfg prev w) = executeToolCalls cache cfg toolCalls w"
  by (simp add: handleToolCalls_def Let_def split: sum.splits)

lemma run_call_key: "cacheKey_of call = to_string (own call (js ''name'')) @ js '':'' @ ensureJsonString (own call (js ''arguments''))"
  by (simp add: cacheKey_of_def)

lemma run_call_replayed:
  "cache (cacheKey_of call) = Some cached \<Longrightarrow> run_call cache cfg call w = (Replayed cached, w, [])"
  by (simp add: run_call_def cacheKey_of_def Let_def)

lemma run_call_not_found:
  "cache (cacheKey_of call) = None \<Longrightarrow>
   find_tool (tools cfg) (own call (js ''name'')) = None \<or>
   (\<exists>t. find_tool (tools cfg) (own call (js ''name'')) = Some t \<and> handler t = None) \<Longrightarrow>
   run_call cache cfg call w = (Failed (not_found call), w, [])"
  by (auto simp: run_call_def cacheKey_of_def Let_def)

lemma run_call_returned:
  "cache (cacheKey_of call) = None \<Longrightarrow>
   find_tool (tools cfg) (own call (js ''name'')) = Some t \<Longrightarrow> handler t = Some h \<Longrightarrow>
   JSON_parse (ensureJsonString (own call (js ''arguments''))) = Some params \<Longrightarrow>
   h params w = (Inr result, w') \<Longrightarrow>
   run_call cache cfg call w = (Returned (cacheKey_of call) (as_list result), w', [(name t, params)])"
  by (simp add: run_call_def cacheKey_of_def Let_def)

lemma foldl_store_append: "foldl store c (xs @ ys) = foldl store (foldl store c xs) ys"
  by simp

text \<open>Two stores under different keys can be made in either order.\<close>

lemma store_commute:
  "k1 \<noteq> k2 \<Longrightarrow>
   store (store c (Returned k1 r1)) (Returned k2 r2) = store (store c (Returned k2 r2)) (Returned k1 r1)"
  by (simp add: fun_upd_twist)

text \<open>A call that neither touches the world nor stores anything can be left out of the
  list without any difference to the cache, the world and the handler calls.\<close>

lemma executeToolCalls_frame:
  assumes "\<And>w. run_call cache cfg call w = (out, w, [])" and "\<And>c. store c out = c"
  shows "settled (executeToolCalls cache cfg (pre @ call # post) w) ! length pre =
           wrapToolResult (own call (js ''id'')) (content_of out) \<and>
         cache_after (executeToolCalls cache cfg (pre @ call # post) w) =
           cache_after (executeToolCalls cache cfg (pre @ post) w) \<and>
         world_after (executeToolCalls cache cfg (pre @ call # post) w) =
           world_after (executeToolCalls cache cfg (pre @ post) w) \<and>
         invoked (executeToolCalls cache cfg (pre @ call # post) w) =
           invoked (executeToolCalls cache cfg (pre @ post) w)"
proof -
  obtain o1 w1 i1 where a: "run_calls cache cfg pre w = (o1, w1, i1)"
    by (cases "run_calls cache cfg pre w") auto
  obtain o2 w2 i2 where b: "run_calls cache cfg post w1 = (o2, w2, i2)"
    by (cases "run_calls cache cfg post w1") auto
  have l: "length o1 = length pre" by (rule run_calls_length [OF a])
  have full: "run_calls cache cfg (pre @ call # post) w = (o1 @ out # o2, w2, i1 @ i2)"
    using a b assms(1) by (simp add: run_calls_append)
  have less: "run_calls cache cfg (pre @ post) w = (o1 @ o2, w2, i1 @ i2)"
    using a b by (simp add: run_calls_append)
  have "settled_of (pre @ call # post) (o1 @ out # o2) ! length pre =
          wrapToolResult (own call (js ''id'')) (content_of out)"
    using l by (simp add: settled_of_def nth_append)
  then show ?thesis
    using full less assms(2) by (simp add: executeToolCalls_def)
qed

lemma js_append: "js (a @ b) = js a @ js b"
  by (simp add: js_def)

lemma js_Nil_iff [simp]: "js s = [] \<longleftrightarrow> s = []"
  by (simp add: js_def)

lemma String_of_not_found:
  "String_of (not_found call) =
   js ''Error: Tool handler for \"'' @ to_string (own call (js ''name'')) @ js ''\" not found''"
  by (simp add: not_found_def error_text_def js_def)

lemma store_Failed: "store c (Failed e) = c"
  by simp

lemma store_Replayed: "store c (Replayed r) = c"
  by simp

lemma executeToolCalls_single:
  "run_call cache cfg call w = (out, w', invs) \<Longrightarrow>
   executeToolCalls cache cfg [call] w =
     \<lparr>settled = [wrapToolResult (own call (js ''id'')) (content_of out)],
      toolResults = Promise_all [wrapToolResult (own call (js ''id'')) (content_of out)],
      cache_after = store cache out, world_after = w', invoked = invs\<rparr>"
  by (simp add: executeToolCalls_def settled_of_def)

lemma run_call_Returned_cases:
  assumes "run_call cache cfg call w = (Returned k r, w', invs)"
  shows "k = cacheKey_of call \<and> cache k = None \<and>
         (\<exists>t h params result.
            find_tool (tools cfg) (own call (js ''name'')) = Some t \<and> handler t = Some h \<and>
            JSON_parse (ensureJsonString (own call (js ''arguments''))) = Some params \<and>
            h params w = (Inr result, w') \<and> r = as_list result)"
  using assms
  by (auto simp: run_call_def cacheKey_of_def Let_def split: option.splits prod.splits sum.splits)

lemma run_call_Failed_cache:
  assumes "run_call cache cfg call w = (Failed e, w', invs)"
  shows "cache (cacheKey_of call) = None"
  using assms
  by (auto simp: run_call_def cacheKey_of_def Let_def split: option.splits prod.splits sum.splits)

lemma world_after_run_calls:
  "run_calls cache cfg calls w = (outs, w', invs) \<Longrightarrow>
   world_after (executeToolCalls cache cfg calls w) = w'"
  by (simp add: executeToolCalls_def)

lemma stored_entries:
  "run_calls cache cfg calls w = (outs, w', invs) \<Longrightarrow>
   foldl store cache outs k = cache k \<or>
   (\<exists>i t h params result w''. i < length calls \<and>
      cacheKey_of (calls ! i) = k \<and> cache k = None \<and>
      find_tool (tools cfg) (own (calls ! i) (js ''name'')) = Some t \<and> handler t = Some h \<and>
      JSON_parse (ensureJsonString (own (calls ! i) (js ''arguments''))) = Some params \<and>
      h params (world_after (executeToolCalls cache cfg (take i calls) w)) = (Inr result, w'') \<and>
      foldl store cache outs k = Some (as_list result))"
proof (induction calls arbitrary: outs w' invs rule: rev_induct)
  case Nil
  then show ?case by simp
next
  case (snoc x xs)
  obtain o1 w1 i1 where a: "run_calls cache cfg xs w = (o1, w1, i1)"
    by (cases "run_calls cache cfg xs w") auto
  obtain out w2 i2 where b: "run_call cache cfg x w1 = (out, w2, i2)"
    by (cases "run_call cache cfg x w1") auto
  from snoc.prems a b have outs: "outs = o1 @ [out]"
    by (simp add: run_calls_append)
  have wa: "world_after (executeToolCalls cache cfg xs w) = w1"
    by (rule world_after_run_calls [OF a])
  show ?case
  proof (cases "\<exists>r. out = Returned k r")
    case True
    then obtain r where out: "out = Returned k r" by blast
    from run_call_Returned_cases [OF b [unfolded out]]
    obtain t h params result where
      "k = cacheKey_of x" "cache k = None"
      "find_tool (tools cfg) (own x (js ''name'')) = Some t" "handler t = Some h"
      "JSON_parse (ensureJsonString (own x (js ''arguments''))) = Some params"
      "h params w1 = (Inr result, w2)" "r = as_list result"
      by blast
    then have "length xs < length (xs @ [x]) \<and>
      cacheKey_of ((xs @ [x]) ! length xs) = k \<and> cache k = None \<and>
      find_tool (tools cfg) (own ((xs @ [x]) ! length xs) (js ''name'')) = Some t \<and> handler t = Some h \<and>
      JSON_parse (ensureJsonString (own ((xs @ [x]) ! length xs) (js ''arguments''))) = Some params \<and>
      h params (world_after (executeToolCalls cache cfg (take (length xs) (xs @ [x])) w)) = (Inr result, w2) \<and>
      foldl store cache outs k = Some (as_list result)"
      using wa outs out by simp
    then show ?thesis by blast
  next
    case False
    then have same: "foldl store cache outs k = foldl store cache o1 k"
      unfolding outs by (cases out) auto
    from snoc.IH [OF a] show ?thesis
    proof
      assume "foldl store cache o1 k = cache k"
      with same show ?thesis by simp
    next
      assume "\<exists>i t h params result w''. i < length xs \<and>
        cacheKey_of (xs ! i) = k \<and> cache k = None \<and>
        find_tool (tools cfg) (own (xs ! i) (js ''name'')) = Some t \<and> handler t = Some h \<and>
        JSON_parse (ensureJsonString (own (xs ! i) (js ''arguments''))) = Some params \<and>
        h params (world_after (executeToolCalls cache cfg (take i xs) w)) = (Inr result, w'') \<and>
        foldl store cache o1 k = Some (as_list result)"
      then obtain i t h params result w'' where i: "i < length xs"
        and rest: "cacheKey_of (xs ! i) = k" "cache k = None"
        "find_tool (tools cfg) (own (xs ! i) (js ''name'')) = Some t" "handler t = Some h"
        "JSON_parse (ensureJsonString (own (xs ! i) (js ''arguments''))) = Some params"
        "h params (world_after (executeToolCalls cache cfg (take i xs) w)) = (Inr result, w'')"
        "foldl store cache o1 k = Some (as_list result)"
        by blast
      from i have "(xs @ [x]) ! i = xs ! i" "take i (xs @ [x]) = take i xs" "i < length (xs @ [x])"
        by (simp_all add: nth_append)
      with rest same show ?thesis by metis
    qed
  qed
qed

lemma lookup_call_fields:
  "own (lookup_call i) (js ''name'') = Str (js ''lookup'')"
  "own (lookup_call i) (js ''arguments'') = Str (js ''{\"q\":1}'')"
  "own (lookup_call i) (js ''id'') = Str (js i)"
  by (simp_all add: js_def)

lemma lookup_params:
  "JSON_parse (ensureJsonString (Str (js ''{\"q\":1}''))) = Some (Obj [(js ''q'', Num (Dec 1 0))])"
  by code_simp


text \<open>
  Claim C3. The claim: for every list of \<open>N\<close> tool calls, \<open>handleToolCalls\<close> produces
  exactly \<open>N\<close> tool results, the \<open>i\<close>-th for the \<open>i\<close>-th call, and the failure of one
  call does not remove the results of the others. The executor does turn an unknown
  tool, arguments that do not parse and a handler that throws into an error result, inside
  its \<open>try\<close>; but it serializes the result after that \<open>try\<close>. Here the registry has
  \<open>lookup\<close> and \<open>balance\<close>, and \<open>balance\<close> returns a \<open>BigInt\<close>: both handlers are
  called, the call of \<open>lookup\<close> settles with its result, the call of \<open>balance\<close> rejects,
  and the \<open>await Promise.all\<close> throws. There are no tool results, for two calls, and no
  body of a next request.
\<close>

theorem executor_loses_results:
  "invoked (snd (handleToolCalls Map.empty [lookup_call ''c1'', balance_call ''c2''] Undefined
             (cfg_with (Some [counting_lookup, balance_tool])) (Arr []) 0)) =
     [(js ''lookup'', Obj [(js ''q'', Num (Dec 1 0))]), (js ''balance'', Obj [])] \<and>
   settled (snd (handleToolCalls Map.empty [lookup_call ''c1'', balance_call ''c2''] Undefined
             (cfg_with (Some [counting_lookup, balance_tool])) (Arr []) 0)) =
     [Inr (Obj [(js ''role'', Str (js ''tool'')), (js ''tool_call_id'', Str (js ''c1'')),
                (js ''content'', Str (js ''[\"found\"]''))]),
      Inl (TypeError (js ''Do not know how to serialize a BigInt''))] \<and>
   toolResults (snd (handleToolCalls Map.empty [lookup_call ''c1'', balance_call ''c2''] Undefined
             (cfg_with (Some [counting_lookup, balance_tool])) (Arr []) 0)) =
     Inl (TypeError (js ''Do not know how to serialize a BigInt'')) \<and>
   fst (handleToolCalls Map.empty [lookup_call ''c1'', balance_call ''c2''] Undefined
             (cfg_with (Some [counting_lookup, balance_tool])) (Arr []) 0) =
     Inl (TypeError (js ''Do not know how to serialize a BigInt''))"
  by code_simp


text \<open>
  Claim C2. When the first execution of a tool call succeeds (its key is not in the cache,
  its tool is registered with a handler, its arguments parse and the handler returns),
  the handler has been invoked once and the list form of its result is in the cache under
  the key \<open>name + ":" + ensureJsonString(arguments)\<close>. Executing the same name and
  arguments a second time, with any registry and in any state of the world, settles with
  that cached list in a tool message, invokes no handler and leaves the world and the
  cache as they are: one invocation in total.
\<close>

theorem cache_idempotence:
  assumes "cache (cacheKey_of call) = None"
    and "find_tool (tools cfg) (own call (js ''name'')) = Some t"
    and "handler t = Some h"
    and "JSON_parse (ensureJsonString (own call (js ''arguments''))) = Some params"
    and "h params w = (Inr result, w')"
    and "own call2 (js ''name'') = own call (js ''name'')"
    and "own call2 (js ''arguments'') = own call (js ''arguments'')"
  shows "invoked (executeToolCalls cache cfg [call] w) = [(name t, params)] \<and>
         world_after (executeToolCalls cache cfg [call] w) = w' \<and>
         cache_after (executeToolCalls cache cfg [call] w) (cacheKey_of call) = Some (as_list result) \<and>
         settled (executeToolCalls (cache_after (executeToolCalls cache cfg [call] w)) cfg2 [call2] w2) =
           [wrapToolResult (own call2 (js ''id'')) (as_list result)] \<and>
         toolResults (executeToolCalls (cache_after (executeToolCalls cache cfg [call] w)) cfg2 [call2] w2) =
           Promise_all [wrapToolResult (own call2 (js ''id'')) (as_list result)] \<and>
         invoked (executeToolCalls (cache_after (executeToolCalls cache cfg [call] w)) cfg2 [call2] w2) = [] \<and>
         world_after (executeToolCalls (cache_after (executeToolCalls cache cfg [call] w)) cfg2 [call2] w2) = w2 \<and>
         cache_after (executeToolCalls (cache_after (executeToolCalls cache cfg [call] w)) cfg2 [call2] w2) =
           cache_after (executeToolCalls cache cfg [call] w) \<and>
         length (invoked (executeToolCalls cache cfg [call] w) @
                 invoked (executeToolCalls (cache_after (executeToolCalls cache cfg [call] w)) cfg2 [call2] w2)) = 1"
proof -
  let ?c1 = "cache(cacheKey_of call \<mapsto> as_list result)"
  have first: "executeToolCalls cache cfg [call] w =
      \<lparr>settled = [wrapToolResult (own call (js ''id'')) (as_list result)],
       toolResults = Promise_all [wrapToolResult (own call (js ''id'')) (as_list result)],
       cache_after = ?c1, world_after = w', invoked = [(name t, params)]\<rparr>"
    using executeToolCalls_single [OF run_call_returned [of cache call cfg t h params w result w', OF assms(1-5)]] by simp
  have k: "cacheKey_of call2 = cacheKey_of call"
    using assms(6,7) by (simp add: cacheKey_of_def)
  have "?c1 (cacheKey_of call2) = Some (as_list result)" by (simp add: k)
  from executeToolCalls_single [OF run_call_replayed [of ?c1 call2 "as_list result" cfg2 w2, OF this]]
  have second: "executeToolCalls ?c1 cfg2 [call2] w2 =
      \<lparr>settled = [wrapToolResult (own call2 (js ''id'')) (as_list result)],
       toolResults = Promise_all [wrapToolResult (own call2 (js ''id'')) (as_list result)],
       cache_after = ?c1, world_after = w2, invoked = []\<rparr>"
    by simp
  show ?thesis unfolding first by (simp add: second)
qed


theorem cache_idempotence_witness:
  "Map.empty (cacheKey_of (lookup_call ''c1'')) = None \<and>
   find_tool (tools (cfg_with (Some [counting_lookup]))) (own (lookup_call ''c1'') (js ''name''))
     = Some counting_lookup \<and>
   JSON_parse (ensureJsonString (own (lookup_call ''c1'') (js ''arguments'')))
     = Some (Obj [(js ''q'', Num (Dec 1 0))]) \<and>
   invoked (executeToolCalls Map.empty (cfg_with (Some [counting_lookup])) [lookup_call ''c1''] 0)
     = [(js ''lookup'', Obj [(js ''q'', Num (Dec 1 0))])] \<and>
   world_after (executeToolCalls Map.empty (cfg_with (Some [counting_lookup])) [lookup_call ''c1''] 0) = 1 \<and>
   invoked (executeToolCalls
      (cache_after (executeToolCalls Map.empty (cfg_with (Some [counting_lookup])) [lookup_call ''c1''] 0))
      (cfg_with (Some [counting_lookup])) [lookup_call ''c2''] 1) = [] \<and>
   world_after (executeToolCalls
      (cache_after (executeToolCalls Map.empty (cfg_with (Some [counting_lookup])) [lookup_call ''c1''] 0))
      (cfg_with (Some [counting_lookup])) [lookup_call ''c2''] 1) = 1 \<and>
   toolResults (executeToolCalls
      (cache_after (executeToolCalls Map.empty (cfg_with (Some [counting_lookup])) [lookup_call ''c1''] 0))
      (cfg_with (Some [counting_lookup])) [lookup_call ''c2''] 1)
     = Inr [Obj [(js ''role'', Str (js ''tool'')), (js ''tool_call_id'', Str (js ''c2'')),
                 (js ''content'', Str (js ''[\"found\"]''))]]"
proof -
  have h1: "Map.empty (cacheKey_of (lookup_call ''c1'')) = None" by simp
  have h2: "find_tool (tools (cfg_with (Some [counting_lookup]))) (own (lookup_call ''c1'') (js ''name''))
     = Some counting_lookup"
    by (simp add: find_tool_def js_def)
  have h3: "handler counting_lookup = Some (\<lambda>params n. (Inr (Json (Str (js ''found''))), n + 1))"
    by simp
  have h4: "JSON_parse (ensureJsonString (own (lookup_call ''c1'') (js ''arguments'')))
     = Some (Obj [(js ''q'', Num (Dec 1 0))])"
    by (simp only: lookup_call_fields lookup_params)
  have h5: "(\<lambda>params n. (Inr (Json (Str (js ''found''))), n + 1)) (Obj [(js ''q'', Num (Dec 1 0))]) (0::int)
     = (Inr (Json (Str (js ''found''))), 1)"
    by simp
  have h6: "own (lookup_call ''c2'') (js ''name'') = own (lookup_call ''c1'') (js ''name'')"
    "own (lookup_call ''c2'') (js ''arguments'') = own (lookup_call ''c1'') (js ''arguments'')"
    by (simp_all only: lookup_call_fields)
  have e: "Promise_all [wrapToolResult (Str (js ''c2'')) (as_list (Json (Str (js ''found''))))] =
      Inr [Obj [(js ''role'', Str (js ''tool'')), (js ''tool_call_id'', Str (js ''c2'')),
                 (js ''content'', Str (js ''[\"found\"]''))]]"
    by code_simp
  note r = cache_idempotence [OF h1 h2 h3 h4 h5 h6, of "cfg_with (Some [counting_lookup])" 1,
      unfolded lookup_call_fields e]
  from r h1 h2 h4 show ?thesis by simp
qed


text \<open>
  Claim C7, as amended. When the key of a call is not in the cache and no registered tool
  has the call's name (or the first tool with that name has no handler), that call
  settles with a tool message whose content is the serialization of
  \<open>{error: "Error: Tool handler for \"<name>\" not found"}\<close>: \<open>String(err)\<close> puts the
  name of the error object before the message. It is the result at the call's place
  whenever the \<open>await Promise.all\<close> of the list is fulfilled, and the one result of the
  call run alone. The call stores nothing and invokes nothing: the cache, the world and
  the handler calls are those of the list without it.

  As the claim was stated it fails twice, which the counterexample shows: the error
  string does not start with \<open>Tool handler\<close> but with \<open>Error: Tool handler\<close>, and a call
  whose key is already in the cache gets the cached list, whether or not its tool is
  (still) registered.
\<close>

theorem unknown_tool_error_result:
  assumes "cache (cacheKey_of call) = None"
    and "find_tool (tools cfg) (own call (js ''name'')) = None \<or>
         (\<exists>t. find_tool (tools cfg) (own call (js ''name'')) = Some t \<and> handler t = None)"
  shows "settled (executeToolCalls cache cfg (pre @ call # post) w) ! length pre =
           Inr (Obj [(js ''role'', Str (js ''tool'')), (js ''tool_call_id'', own call (js ''id'')),
                     (js ''content'',
                      JSON_stringify
                        (Obj [(js ''error'',
                               Str (js ''Error: Tool handler for \"'' @ to_string (own call (js ''name''))
                                    @ js ''\" not found''))]))]) \<and>
         (\<forall>rs. toolResults (executeToolCalls cache cfg (pre @ call # post) w) = Inr rs \<longrightarrow>
            rs ! length pre =
              Obj [(js ''role'', Str (js ''tool'')), (js ''tool_call_id'', own call (js ''id'')),
                   (js ''content'',
                    JSON_stringify
                      (Obj [(js ''error'',
                             Str (js ''Error: Tool handler for \"'' @ to_string (own call (js ''name''))
                                  @ js ''\" not found''))]))]) \<and>
         toolResults (executeToolCalls cache cfg [call] w) =
           Inr [Obj [(js ''role'', Str (js ''tool'')), (js ''tool_call_id'', own call (js ''id'')),
                     (js ''content'',
                      JSON_stringify
                        (Obj [(js ''error'',
                               Str (js ''Error: Tool handler for \"'' @ to_string (own call (js ''name''))
                                    @ js ''\" not found''))]))]] \<and>
         cache_after (executeToolCalls cache cfg (pre @ call # post) w) =
           cache_after (executeToolCalls cache cfg (pre @ post) w) \<and>
         world_after (executeToolCalls cache cfg (pre @ call # post) w) =
           world_after (executeToolCalls cache cfg (pre @ post) w) \<and>
         invoked (executeToolCalls cache cfg (pre @ call # post) w) =
           invoked (executeToolCalls cache cfg (pre @ post) w) \<and>
         cache_after (executeToolCalls cache cfg [call] w) = cache"
proof -
  let ?m = "Obj [(js ''role'', Str (js ''tool'')), (js ''tool_call_id'', own call (js ''id'')),
                 (js ''content'',
                  JSON_stringify
                    (Obj [(js ''error'',
                           Str (js ''Error: Tool handler for \"'' @ to_string (own call (js ''name''))
                                @ js ''\" not found''))]))]"
  have r: "\<And>w. run_call cache cfg call w = (Failed (not_found call), w, [])"
    using assms by (rule run_call_not_found)
  have m: "wrapToolResult (own call (js ''id'')) (content_of (Failed (not_found call))) = Inr ?m"
    by (simp add: wrapToolResult_Json String_of_not_found)
  note f = executeToolCalls_frame [OF r store_Failed, of pre post w, unfolded m]
  have s: "settled (executeToolCalls cache cfg (pre @ call # post) w) ! length pre = Inr ?m"
    using f by simp
  have l: "length (settled (executeToolCalls cache cfg (pre @ call # post) w)) = length (pre @ call # post)"
  proof -
    obtain outs w' invs where rc: "run_calls cache cfg (pre @ call # post) w = (outs, w', invs)"
      by (cases "run_calls cache cfg (pre @ call # post) w") auto
    from settled_of_length [OF run_calls_length [OF rc]] rc show ?thesis
      by (simp add: executeToolCalls_def)
  qed
  have p: "toolResults (executeToolCalls cache cfg (pre @ call # post) w) =
      Promise_all (settled (executeToolCalls cache cfg (pre @ call # post) w))"
    by (simp add: executeToolCalls_def split: prod.splits)
  have a: "\<forall>rs. toolResults (executeToolCalls cache cfg (pre @ call # post) w) = Inr rs \<longrightarrow>
            rs ! length pre = ?m"
  proof (intro allI impI)
    fix rs assume "toolResults (executeToolCalls cache cfg (pre @ call # post) w) = Inr rs"
    then have "Promise_all (settled (executeToolCalls cache cfg (pre @ call # post) w)) = Inr rs"
      by (simp add: p)
    from Promise_all_nth [OF this, of "length pre"] l s show "rs ! length pre = ?m" by simp
  qed
  have one: "executeToolCalls cache cfg [call] w =
     \<lparr>settled = [Inr ?m], toolResults = Promise_all [Inr ?m],
      cache_after = cache, world_after = w, invoked = []\<rparr>"
    using executeToolCalls_single [OF r, of w, unfolded m] by simp
  have t: "toolResults (executeToolCalls cache cfg [call] w) = Inr [?m]"
    by (simp add: one)
  have c: "cache_after (executeToolCalls cache cfg [call] w) = cache"
    by (simp add: one)
  from f have f1: "cache_after (executeToolCalls cache cfg (pre @ call # post) w) =
           cache_after (executeToolCalls cache cfg (pre @ post) w)"
    and f2: "world_after (executeToolCalls cache cfg (pre @ call # post) w) =
           world_after (executeToolCalls cache cfg (pre @ post) w)"
    and f3: "invoked (executeToolCalls cache cfg (pre @ call # post) w) =
           invoked (executeToolCalls cache cfg (pre @ post) w)"
    by simp_all
  show ?thesis
    apply (intro conjI)
          apply (rule s)
         apply (rule a)
        apply (rule t)
       apply (rule f1)
      apply (rule f2)
     apply (rule f3)
    apply (rule c)
    done
qed


theorem unknown_tool_counterexample:
  "toolResults (executeToolCalls Map.empty
        \<lparr>apiKey = [], modelName = js ''m'', systemPrompt = [], apiUrl = [], tools = None,
         documents = Undefined\<rparr>
        [Obj [(js ''id'', Str (js ''c1'')), (js ''name'', Str (js ''x'')),
              (js ''arguments'', Str [])]] ()) \<noteq>
     Inr [Obj [(js ''role'', Str (js ''tool'')), (js ''tool_call_id'', Str (js ''c1'')),
               (js ''content'',
                JSON_stringify (Obj [(js ''error'', Str (js ''Tool handler for \"x\" not found''))]))]] \<and>
   toolResults (executeToolCalls [js ''x:{}'' \<mapsto> Json (Arr [Num (Dec 1 0)])]
        \<lparr>apiKey = [], modelName = js ''m'', systemPrompt = [], apiUrl = [], tools = None,
         documents = Undefined\<rparr>
        [Obj [(js ''id'', Str (js ''c1'')), (js ''name'', Str (js ''x'')),
              (js ''arguments'', Str [])]] ()) =
     Inr [Obj [(js ''role'', Str (js ''tool'')), (js ''tool_call_id'', Str (js ''c1'')),
               (js ''content'', Str (js ''[1]''))]]"
  by code_simp

theorem unknown_tool_error_result_witness:
  "Map.empty (cacheKey_of (Obj [(js ''id'', Str (js ''c1'')), (js ''name'', Str (js ''x'')),
              (js ''arguments'', Str [])])) = None \<and>
   find_tool (tools \<lparr>apiKey = [], modelName = js ''m'', systemPrompt = [], apiUrl = [], tools = None,
         documents = Undefined\<rparr>) (own (Obj [(js ''id'', Str (js ''c1'')), (js ''name'', Str (js ''x'')),
              (js ''arguments'', Str [])]) (js ''name'')) = (None :: unit tool option) \<and>
   toolResults (executeToolCalls Map.empty
        \<lparr>apiKey = [], modelName = js ''m'', systemPrompt = [], apiUrl = [], tools = None,
         documents = Undefined\<rparr>
        [Obj [(js ''id'', Str (js ''c1'')), (js ''name'', Str (js ''x'')),
              (js ''arguments'', Str [])]] ()) =
     Inr [Obj [(js ''role'', Str (js ''tool'')), (js ''tool_call_id'', Str (js ''c1'')),
               (js ''content'', Str (js ''{\"error\":\"Error: Tool handler for '' @ [0x5C] @ js ''\"x'' @ [0x5C]
                                     @ js ''\" not found\"}''))]] \<and>
   cache_after (executeToolCalls Map.empty
        \<lparr>apiKey = [], modelName = js ''m'', systemPrompt = [], apiUrl = [], tools = None,
         documents = Undefined\<rparr>
        [Obj [(js ''id'', Str (js ''c1'')), (js ''name'', Str (js ''x'')),
              (js ''arguments'', Str [])]] ()) = Map.empty"
proof -
  let ?cfg = "\<lparr>apiKey = [], modelName = js ''m'', systemPrompt = [], apiUrl = [],
     tools = (None :: unit tool list option), documents = Undefined\<rparr>"
  let ?call = "Obj [(js ''id'', Str (js ''c1'')), (js ''name'', Str (js ''x'')),
              (js ''arguments'', Str [])]"
  have h1: "Map.empty (cacheKey_of ?call) = None" by simp
  have h2: "find_tool (tools ?cfg) (own ?call (js ''name'')) = None"
    by (simp add: find_tool_def)
  have e1: "own ?call (js ''name'') = Str (js ''x'')" by code_simp
  have e2: "own ?call (js ''id'') = Str (js ''c1'')" by code_simp
  have e3: "JSON_stringify
              (Obj [(js ''error'',
                     Str (js ''Error: Tool handler for \"'' @ to_string (Str (js ''x''))
                          @ js ''\" not found''))]) =
            Str (js ''{\"error\":\"Error: Tool handler for '' @ [0x5C] @ js ''\"x'' @ [0x5C]
                                     @ js ''\" not found\"}'')" by code_simp
  note r = unknown_tool_error_result [of Map.empty ?call ?cfg "[]" "[]" "()", OF h1 disjI1 [OF h2],
      unfolded e1 e2 e3 append_Nil list.size]
  note c3 = r [THEN conjunct2, THEN conjunct2, THEN conjunct1]
  note c7 = r [THEN conjunct2, THEN conjunct2, THEN conjunct2, THEN conjunct2, THEN conjunct2,
      THEN conjunct2]
  show ?thesis by (intro conjI h1 h2 c3 c7)
qed


text \<open>
  Claim C10. After a run of the executor every cache entry is either the one that was
  there before, or the list form of what a handler returned, without throwing, for a call
  of this run with that key. A call that failed (unregistered tool, arguments that do not
  parse, handler that throws) leaves the cache as it was, so a later call with the same
  name and arguments is not replayed from the cache: a registered handler is invoked
  again.
\<close>

theorem failures_never_cached:
  "(cache_after (executeToolCalls cache cfg calls w) k = cache k \<or>
    (\<exists>i t h params result w''. i < length calls \<and>
       cacheKey_of (calls ! i) = k \<and> cache k = None \<and>
       find_tool (tools cfg) (own (calls ! i) (js ''name'')) = Some t \<and> handler t = Some h \<and>
       JSON_parse (ensureJsonString (own (calls ! i) (js ''arguments''))) = Some params \<and>
       h params (world_after (executeToolCalls cache cfg (take i calls) w)) = (Inr result, w'') \<and>
       cache_after (executeToolCalls cache cfg calls w) k = Some (as_list result))) \<and>
   (fst (run_call cache cfg call w) = Failed e \<and>
    own call2 (js ''name'') = own call (js ''name'') \<and>
    own call2 (js ''arguments'') = own call (js ''arguments'') \<and>
    find_tool (tools cfg2) (own call2 (js ''name'')) = Some t2 \<and> handler t2 = Some h2 \<and>
    JSON_parse (ensureJsonString (own call2 (js ''arguments''))) = Some params2 \<longrightarrow>
      cache (cacheKey_of call) = None \<and>
      cache_after (executeToolCalls cache cfg [call] w) = cache \<and>
      invoked (executeToolCalls (cache_after (executeToolCalls cache cfg [call] w)) cfg2 [call2] w2) =
        [(name t2, params2)])"
proof (intro conjI impI)
  obtain outs w' invs where r: "run_calls cache cfg calls w = (outs, w', invs)"
    by (cases "run_calls cache cfg calls w") auto
  then have c: "cache_after (executeToolCalls cache cfg calls w) = foldl store cache outs"
    by (simp add: executeToolCalls_def)
  from stored_entries [OF r, of k]
  show "cache_after (executeToolCalls cache cfg calls w) k = cache k \<or>
    (\<exists>i t h params result w''. i < length calls \<and>
       cacheKey_of (calls ! i) = k \<and> cache k = None \<and>
       find_tool (tools cfg) (own (calls ! i) (js ''name'')) = Some t \<and> handler t = Some h \<and>
       JSON_parse (ensureJsonString (own (calls ! i) (js ''arguments''))) = Some params \<and>
       h params (world_after (executeToolCalls cache cfg (take i calls) w)) = (Inr result, w'') \<and>
       cache_after (executeToolCalls cache cfg calls w) k = Some (as_list result))"
    unfolding c .
next
  assume a: "fst (run_call cache cfg call w) = Failed e \<and>
    own call2 (js ''name'') = own call (js ''name'') \<and>
    own call2 (js ''arguments'') = own call (js ''arguments'') \<and>
    find_tool (tools cfg2) (own call2 (js ''name'')) = Some t2 \<and> handler t2 = Some h2 \<and>
    JSON_parse (ensureJsonString (own call2 (js ''arguments''))) = Some params2"
  then obtain w' invs where f: "run_call cache cfg call w = (Failed e, w', invs)"
    by (cases "run_call cache cfg call w") auto
  show n: "cache (cacheKey_of call) = None" by (rule run_call_Failed_cache [OF f])
  show u: "cache_after (executeToolCalls cache cfg [call] w) = cache"
    by (simp add: executeToolCalls_single [OF f])
  have k: "cacheKey_of call2 = cacheKey_of call"
    using a by (simp add: cacheKey_of_def)
  obtain res w3 where h: "h2 params2 w2 = (res, w3)" by (cases "h2 params2 w2") auto
  have "\<exists>out. run_call cache cfg2 call2 w2 = (out, w3, [(name t2, params2)])"
    using a n k h by (cases res) (auto simp: run_call_def cacheKey_of_def Let_def)
  then obtain out where "run_call cache cfg2 call2 w2 = (out, w3, [(name t2, params2)])" by blast
  from executeToolCalls_single [OF this]
  show "invoked (executeToolCalls (cache_after (executeToolCalls cache cfg [call] w)) cfg2 [call2] w2) =
        [(name t2, params2)]"
    unfolding u by simp
qed

theorem failures_never_cached_witness:
  "fst (run_call Map.empty (cfg_with (Some [flaky_lookup])) (lookup_call ''c1'') False)
     = Failed (Error (js ''backend down'')) \<and>
   find_tool (tools (cfg_with (Some [flaky_lookup]))) (own (lookup_call ''c2'') (js ''name''))
     = Some flaky_lookup \<and>
   JSON_parse (ensureJsonString (own (lookup_call ''c2'') (js ''arguments'')))
     = Some (Obj [(js ''q'', Num (Dec 1 0))]) \<and>
   cache_after (executeToolCalls Map.empty (cfg_with (Some [flaky_lookup])) [lookup_call ''c1''] False)
     = Map.empty \<and>
   invoked (executeToolCalls
      (cache_after (executeToolCalls Map.empty (cfg_with (Some [flaky_lookup])) [lookup_call ''c1''] False))
      (cfg_with (Some [flaky_lookup])) [lookup_call ''c2''] True)
     = [(js ''lookup'', Obj [(js ''q'', Num (Dec 1 0))])]"
proof -
  have h2: "find_tool (tools (cfg_with (Some [flaky_lookup]))) (own (lookup_call ''c2'') (js ''name''))
     = Some flaky_lookup"
    by (simp add: find_tool_def js_def)
  have h2': "find_tool (tools (cfg_with (Some [flaky_lookup]))) (own (lookup_call ''c1'') (js ''name''))
     = Some flaky_lookup"
    by (simp add: find_tool_def js_def)
  have h4: "JSON_parse (ensureJsonString (own (lookup_call ''c2'') (js ''arguments'')))
     = Some (Obj [(js ''q'', Num (Dec 1 0))])"
    by (simp only: lookup_call_fields lookup_params)
  have h4': "JSON_parse (ensureJsonString (own (lookup_call ''c1'') (js ''arguments'')))
     = Some (Obj [(js ''q'', Num (Dec 1 0))])"
    by (simp only: lookup_call_fields lookup_params)
  have h1: "fst (run_call Map.empty (cfg_with (Some [flaky_lookup])) (lookup_call ''c1'') False)
     = Failed (Error (js ''backend down''))"
    unfolding run_call_def Let_def h2' h4' by simp
  have h3: "handler flaky_lookup = Some (\<lambda>params up. if up then (Inr (Json (Str (js ''found''))), up)
                                    else (Inl (Error (js ''backend down'')), up))"
    by simp
  have h6: "own (lookup_call ''c2'') (js ''name'') = own (lookup_call ''c1'') (js ''name'')"
    "own (lookup_call ''c2'') (js ''arguments'') = own (lookup_call ''c1'') (js ''arguments'')"
    by (simp_all only: lookup_call_fields)
  from failures_never_cached [of Map.empty "cfg_with (Some [flaky_lookup])" "[]" False "[]"
      "lookup_call ''c1''" "Error (js ''backend down'')" "lookup_call ''c2''"
      "cfg_with (Some [flaky_lookup])" flaky_lookup _ "Obj [(js ''q'', Num (Dec 1 0))]" True]
    h1 h2 h3 h4 h6
  have c: "cache_after (executeToolCalls Map.empty (cfg_with (Some [flaky_lookup])) [lookup_call ''c1''] False)
     = Map.empty \<and>
   invoked (executeToolCalls
      (cache_after (executeToolCalls Map.empty (cfg_with (Some [flaky_lookup])) [lookup_call ''c1''] False))
      (cfg_with (Some [flaky_lookup])) [lookup_call ''c2''] True)
     = [(name flaky_lookup, Obj [(js ''q'', Num (Dec 1 0))])]"
    by blast
  have nm: "name flaky_lookup = js ''lookup''" by simp
  from h1 h2 h4 c [unfolded nm] show ?thesis by blast
qed



section \<open>The stream reader\<close>

lemma of_char_word_inj: "(of_char x :: jschar) = of_char y \<Longrightarrow> x = y"
proof -
  assume eq: "(of_char x :: jschar) = of_char y"
  have b: "(of_char c :: nat) < 2 ^ 16" for c
  proof -
    have "(of_char c :: nat) mod 256 < 256" by (rule mod_less_divisor) simp
    then have "(of_char c :: nat) < 256" by (simp only: of_char_mod_256)
    then show ?thesis by (rule order_less_trans) simp
  qed
  from eq have "(of_nat (of_char x) :: jschar) = of_nat (of_char y)"
    by (simp only: of_nat_of_char)
  then have "take_bit 16 (of_char x :: nat) = take_bit 16 (of_char y :: nat)"
    unfolding word_of_nat_eq_iff by simp
  then have "(of_char x :: nat) = of_char y"
    by (simp only: take_bit_nat_eq_self [OF b])
  then show "x = y" by (rule of_char_eqI)
qed

lemma js_inj [simp]: "js a = js b \<longleftrightarrow> a = b"
proof -
  have "inj (of_char :: char \<Rightarrow> jschar)"
    by (rule injI) (rule of_char_word_inj)
  then show ?thesis by (simp add: js_def inj_map_eq_map)
qed

lemma process_line_carries:
  "carries line parsed \<Longrightarrow>
   process_line cfg prev st line =
     (case dispatch cfg prev st parsed of Caught e st' \<Rightarrow> Go st' | r \<Rightarrow> r)"
  by (simp add: carries_def process_line_def Let_def)

lemma dispatch_orphan_delta:
  "eventType_of (currentEventType st) parsed = Str (js ''tool-call-delta'') \<Longrightarrow>
   map_get (toolCallsMap st) (own parsed (js ''index'')) = None \<Longrightarrow>
   dispatch cfg prev st parsed = Go st"
  by (simp add: dispatch_def Let_def)

lemma entries_at_set_same:
  "primitive i \<Longrightarrow> length (entries_at m i) \<le> 1 \<Longrightarrow> entries_at (map_set m i v) i = [(i, v)]"
proof (induction m)
  case Nil
  then show ?case by (simp add: entries_at_def same_key_def)
next
  case (Cons kv m)
  obtain k' v' where kv: "kv = (k', v')" by (cases kv)
  show ?case
  proof (cases "same_key k' i")
    case True
    with Cons.prems have "entries_at m i = []" by (simp add: kv entries_at_def)
    with True Cons.prems(1) show ?thesis by (simp add: kv entries_at_def same_key_def)
  next
    case False
    with Cons show ?thesis by (simp add: kv entries_at_def)
  qed
qed

lemma entries_at_set_other:
  "j \<noteq> i \<Longrightarrow> entries_at (map_set m j v) i = entries_at m i"
proof (induction m)
  case Nil
  then show ?case by (simp add: entries_at_def same_key_def)
next
  case (Cons kv m)
  obtain k' v' where kv: "kv = (k', v')" by (cases kv)
  show ?case
  proof (cases "same_key k' j")
    case True
    with Cons.prems show ?thesis by (auto simp: kv entries_at_def same_key_def)
  next
    case False
    with Cons show ?thesis by (simp add: kv entries_at_def)
  qed
qed

lemma map_get_entries:
  "map_get m i = (case entries_at m i of [] \<Rightarrow> None | kv # _ \<Rightarrow> Some (snd kv))"
  by (induction m) (auto simp: entries_at_def)

lemma dispatch_start:
  assumes "eventType_of (currentEventType st) parsed = Str (js ''tool-call-start'')"
    and "truthy (deltaStart_of parsed)"
    and "get (own (deltaStart_of parsed) (js ''function'')) (js ''name'') = Inr nm"
  shows "dispatch cfg prev st parsed =
     Go (st\<lparr>toolCallsMap :=
           map_set (toolCallsMap st) (own parsed (js ''index''))
             (Obj [(js ''id'', own (deltaStart_of parsed) (js ''id'')),
                   (js ''name'', nm),
                   (js ''arguments'',
                    js_or (own (own (deltaStart_of parsed) (js ''function'')) (js ''arguments''))
                      (Str []))])\<rparr>)"
  using assms by (simp add: dispatch_def Let_def)

lemma dispatch_delta:
  assumes "eventType_of (currentEventType st) parsed = Str (js ''tool-call-delta'')"
    and "map_get (toolCallsMap st) (own parsed (js ''index'')) = Some call"
  shows "dispatch cfg prev st parsed =
     (if truthy (deltaArgs_of parsed) then
        Go (st\<lparr>toolCallsMap :=
              map_set (toolCallsMap st) (own parsed (js ''index''))
                (Obj [(js ''id'', own call (js ''id'')),
                      (js ''name'', own call (js ''name'')),
                      (js ''arguments'',
                       js_plus (own call (js ''arguments'')) (deltaArgs_of parsed))])\<rparr>)
      else Go st)"
  using assms by (simp add: dispatch_def Let_def)

lemma dispatch_elsewhere:
  assumes "elsewhere (currentEventType st) i parsed"
  shows "\<exists>st'. (dispatch cfg prev st parsed = Go st' \<or> (\<exists>e. dispatch cfg prev st parsed = Caught e st')) \<and>
     entries_at (toolCallsMap st') i = entries_at (toolCallsMap st) i \<and>
     currentEventType st' = currentEventType st"
proof -
  let ?t = "eventType_of (currentEventType st) parsed"
  consider (content) "?t = Str (js ''content-delta'') \<or> ?t = Str (js ''text-generation'')"
    | (start) "?t = Str (js ''tool-call-start'')"
    | (delta) "?t = Str (js ''tool-call-delta'')"
    | (other) "?t \<noteq> Str (js ''content-delta'')" "?t \<noteq> Str (js ''text-generation'')"
        "?t \<noteq> Str (js ''tool-call-start'')" "?t \<noteq> Str (js ''tool-call-delta'')"
    by blast
  then show ?thesis
  proof cases
    case content
    then show ?thesis by (auto simp: dispatch_def Let_def)
  next
    case start
    with assms have ne: "own parsed (js ''index'') \<noteq> i" by (simp add: elsewhere_def)
    show ?thesis
    proof (cases "truthy (deltaStart_of parsed)")
      case False
      with start show ?thesis by (simp add: dispatch_def Let_def)
    next
      case True
      show ?thesis
      proof (cases "get (own (deltaStart_of parsed) (js ''function'')) (js ''name'')")
        case (Inl e)
        with start True show ?thesis by (simp add: dispatch_def Let_def)
      next
        case (Inr nm)
        show ?thesis
          unfolding dispatch_start [OF start True Inr]
          by (simp add: entries_at_set_other [OF ne])
      qed
    qed
  next
    case delta
    with assms have ne: "own parsed (js ''index'') \<noteq> i" by (simp add: elsewhere_def)
    show ?thesis
    proof (cases "map_get (toolCallsMap st) (own parsed (js ''index''))")
      case None
      with delta show ?thesis by (simp add: dispatch_def Let_def)
    next
      case (Some call)
      show ?thesis
        unfolding dispatch_delta [OF delta Some]
        by (simp add: entries_at_set_other [OF ne])
    qed
  next
    case other
    with assms show ?thesis by (simp add: dispatch_def Let_def elsewhere_def)
  qed
qed

lemma is_Str_iff: "is_Str v \<longleftrightarrow> (\<exists>d. v = Str d)"
  by (cases v) auto

lemma accumulate_step:
  assumes c: "carries line p"
    and k: "delta_at cet i p \<or> elsewhere cet i p"
    and i: "primitive i"
    and t: "currentEventType st = cet"
    and e: "entries_at (toolCallsMap st) i =
              [(i, Obj [(js ''id'', a), (js ''name'', n), (js ''arguments'', Str x)])]"
  shows "\<exists>st'. process_line cfg prev st line = Go st' \<and> currentEventType st' = cet \<and>
     entries_at (toolCallsMap st') i =
       [(i, Obj [(js ''id'', a), (js ''name'', n),
                 (js ''arguments'',
                  Str (x @ (if delta_at cet i p then to_string (deltaArgs_of p) else [])))])]"
proof (cases "delta_at cet i p")
  case True
  then obtain d where ty: "eventType_of (currentEventType st) p = Str (js ''tool-call-delta'')"
    and ix: "own p (js ''index'') = i" and d: "deltaArgs_of p = Str d"
    using t by (auto simp: delta_at_def is_Str_iff)
  have g: "map_get (toolCallsMap st) (own p (js ''index'')) =
             Some (Obj [(js ''id'', a), (js ''name'', n), (js ''arguments'', Str x)])"
    by (simp add: map_get_entries ix e)
  have l: "length (entries_at (toolCallsMap st) i) \<le> 1" by (simp add: e)
  show ?thesis
  proof (cases "d = []")
    case True
    with e t \<open>delta_at cet i p\<close> show ?thesis
      by (simp add: process_line_carries [OF c] dispatch_delta [OF ty g] d)
  next
    case False
    with t \<open>delta_at cet i p\<close> show ?thesis
      by (simp add: process_line_carries [OF c] dispatch_delta [OF ty g] d ix
          entries_at_set_same [OF i l])
  qed
next
  case False
  with k t have "elsewhere (currentEventType st) i p" by simp
  from dispatch_elsewhere [OF this, of cfg prev]
  obtain st' where r: "dispatch cfg prev st p = Go st' \<or> (\<exists>e. dispatch cfg prev st p = Caught e st')"
    and m: "entries_at (toolCallsMap st') i = entries_at (toolCallsMap st) i"
    and ct: "currentEventType st' = currentEventType st"
    by blast
  from r have "process_line cfg prev st line = Go st'"
    by (auto simp: process_line_carries [OF c])
  with m ct e t False show ?thesis by simp
qed

lemma accumulate_steps:
  assumes "list_all2 carries ls ps"
    and "\<forall>p\<in>set ps. delta_at cet i p \<or> elsewhere cet i p"
    and "primitive i"
    and "currentEventType st = cet"
    and "entries_at (toolCallsMap st) i =
           [(i, Obj [(js ''id'', a), (js ''name'', n), (js ''arguments'', Str x)])]"
  shows "\<exists>st'. process_lines cfg prev st ls = Go st' \<and> currentEventType st' = cet \<and>
     entries_at (toolCallsMap st') i =
       [(i, Obj [(js ''id'', a), (js ''name'', n),
                 (js ''arguments'',
                  Str (x @ concat (map (\<lambda>p. to_string (deltaArgs_of p))
                                    (filter (delta_at cet i) ps))))])]"
  using assms
proof (induction ls ps arbitrary: st x rule: list_all2_induct)
  case Nil
  then show ?case by simp
next
  case (Cons line ls p ps)
  from Cons.prems(1) have k: "delta_at cet i p \<or> elsewhere cet i p" by simp
  from accumulate_step [OF Cons.hyps(1) k Cons.prems(2,3,4), of cfg prev]
  obtain st1 where s1: "process_line cfg prev st line = Go st1"
    and t1: "currentEventType st1 = cet"
    and e1: "entries_at (toolCallsMap st1) i =
       [(i, Obj [(js ''id'', a), (js ''name'', n),
                 (js ''arguments'',
                  Str (x @ (if delta_at cet i p then to_string (deltaArgs_of p) else [])))])]"
    by blast
  from Cons.prems(1) have rest: "\<forall>p\<in>set ps. delta_at cet i p \<or> elsewhere cet i p" by simp
  from Cons.IH [OF rest Cons.prems(2) t1 e1]
  obtain st' where "process_lines cfg prev st1 ls = Go st'" "currentEventType st' = cet"
    "entries_at (toolCallsMap st') i =
       [(i, Obj [(js ''id'', a), (js ''name'', n),
                 (js ''arguments'',
                  Str ((x @ (if delta_at cet i p then to_string (deltaArgs_of p) else [])) @
                       concat (map (\<lambda>p. to_string (deltaArgs_of p))
                                    (filter (delta_at cet i) ps))))])]"
    by blast
  with s1 show ?case by simp
qed


text \<open>
  Claim C6. A \<open>tool-call-delta\<close> whose index has no fragment in the accumulator changes
  nothing: the switch, and the line that carries the event, leave the whole state as it
  was (no fragment is created or modified, nothing is emitted), nothing is thrown, and the
  loop goes on with the next line.
\<close>

theorem orphan_delta_dropped:
  assumes "carries line parsed"
    and "eventType_of (currentEventType st) parsed = Str (js ''tool-call-delta'')"
    and "map_get (toolCallsMap st) (own parsed (js ''index'')) = None"
  shows "dispatch cfg prev st parsed = Go st \<and> process_line cfg prev st line = Go st"
  using assms by (simp add: process_line_carries dispatch_orphan_delta)

theorem orphan_delta_dropped_witness:
  "carries
     (js ''{\"type\":\"tool-call-delta\",\"index\":3,\"delta\":{\"message\":{\"tool_calls\":{\"function\":{\"arguments\":\"x\"}}}}}'')
     (delta_event (Num (Dec 3 0)) ''x'') \<and>
   eventType_of (currentEventType (initial ())) (delta_event (Num (Dec 3 0)) ''x'')
     = Str (js ''tool-call-delta'') \<and>
   truthy (deltaArgs_of (delta_event (Num (Dec 3 0)) ''x'')) \<and>
   map_get (toolCallsMap (initial ())) (own (delta_event (Num (Dec 3 0)) ''x'') (js ''index'')) = None \<and>
   process_line (cfg_with None) (Arr []) (initial ())
     (js ''{\"type\":\"tool-call-delta\",\"index\":3,\"delta\":{\"message\":{\"tool_calls\":{\"function\":{\"arguments\":\"x\"}}}}}'')
     = Go (initial ())"
proof -
  have h1: "carries
     (js ''{\"type\":\"tool-call-delta\",\"index\":3,\"delta\":{\"message\":{\"tool_calls\":{\"function\":{\"arguments\":\"x\"}}}}}'')
     (delta_event (Num (Dec 3 0)) ''x'')"
    by code_simp
  have h2: "eventType_of (currentEventType (initial ())) (delta_event (Num (Dec 3 0)) ''x'')
     = Str (js ''tool-call-delta'')"
    by (simp add: eventType_of_def js_or_def)
  have h3: "map_get (toolCallsMap (initial ())) (own (delta_event (Num (Dec 3 0)) ''x'') (js ''index'')) = None"
    by (simp add: initial_def)
  have h4: "truthy (deltaArgs_of (delta_event (Num (Dec 3 0)) ''x''))"
    by code_simp
  from orphan_delta_dropped [OF h1 h2 h3, of "cfg_with None" "Arr []"] h1 h2 h3 h4
  show ?thesis by blast
qed


text \<open>
  Claim C5. Let \<open>i\<close> be an index (a number, or any other primitive value). After a line
  that carries a \<open>tool-call-start\<close> at \<open>i\<close> with id \<open>a\<close>, name \<open>n\<close> and initial arguments
  \<open>s\<close>, and after any further lines each of which carries either a \<open>tool-call-delta\<close> at
  \<open>i\<close> with a string of arguments or an event that is not terminal and not a start or
  delta at \<open>i\<close>, the accumulator holds exactly one fragment at \<open>i\<close>; its id is \<open>a\<close>, its
  name is \<open>n\<close>, and its arguments are \<open>s\<close> followed by the arguments of the deltas at \<open>i\<close>
  in their order.
\<close>

theorem tool_call_accumulation:
  assumes "primitive i" and "length (entries_at (toolCallsMap st) i) \<le> 1"
    and "carries l0 p0"
    and "eventType_of (currentEventType st) p0 = Str (js ''tool-call-start'')"
    and "own p0 (js ''index'') = i"
    and "truthy (deltaStart_of p0)"
    and "own (deltaStart_of p0) (js ''id'') = a"
    and "get (own (deltaStart_of p0) (js ''function'')) (js ''name'') = Inr n"
    and "js_or (own (own (deltaStart_of p0) (js ''function'')) (js ''arguments'')) (Str []) = Str s"
    and "list_all2 carries ls ps"
    and "\<forall>p\<in>set ps. delta_at (currentEventType st) i p \<or> elsewhere (currentEventType st) i p"
  shows "\<exists>st'. process_lines cfg prev st (l0 # ls) = Go st' \<and>
     entries_at (toolCallsMap st') i =
       [(i, Obj [(js ''id'', a), (js ''name'', n),
                 (js ''arguments'',
                  Str (s @ concat (map (\<lambda>p. to_string (deltaArgs_of p))
                                    (filter (delta_at (currentEventType st) i) ps))))])] \<and>
     map_get (toolCallsMap st') i =
       Some (Obj [(js ''id'', a), (js ''name'', n),
                 (js ''arguments'',
                  Str (s @ concat (map (\<lambda>p. to_string (deltaArgs_of p))
                                    (filter (delta_at (currentEventType st) i) ps))))])"
proof -
  let ?st1 = "st\<lparr>toolCallsMap :=
           map_set (toolCallsMap st) i
             (Obj [(js ''id'', a), (js ''name'', n), (js ''arguments'', Str s)])\<rparr>"
  have d: "dispatch cfg prev st p0 = Go ?st1"
    using dispatch_start [OF assms(4,6,8), of cfg prev] assms(5,7,9) by simp
  have s1: "process_line cfg prev st l0 = Go ?st1"
    by (simp add: process_line_carries [OF assms(3)] d)
  have e1: "entries_at (toolCallsMap ?st1) i =
      [(i, Obj [(js ''id'', a), (js ''name'', n), (js ''arguments'', Str s)])]"
    by (simp add: entries_at_set_same [OF assms(1,2)])
  have t1: "currentEventType ?st1 = currentEventType st" by simp
  from accumulate_steps [OF assms(10,11,1) t1 e1, of cfg prev]
  obtain st' where r: "process_lines cfg prev ?st1 ls = Go st'"
    and e: "entries_at (toolCallsMap st') i =
       [(i, Obj [(js ''id'', a), (js ''name'', n),
                 (js ''arguments'',
                  Str (s @ concat (map (\<lambda>p. to_string (deltaArgs_of p))
                                    (filter (delta_at (currentEventType st) i) ps))))])]"
    by blast
  from r s1 have "process_lines cfg prev st (l0 # ls) = Go st'" by simp
  with e show ?thesis by (simp add: map_get_entries)
qed


theorem tool_call_accumulation_witness:
  "carries (js ''{\"type\":\"tool-call-start\",\"index\":2,\"delta\":{\"message\":{\"tool_calls\":{\"id\":\"t1\",\"function\":{\"name\":\"lookup\",\"arguments\":\"[\"}}}}}'')
     (start_event (Num (Dec 2 0)) ''t1'' ''lookup'' ''['') \<and>
   carries (js ''{\"type\":\"tool-call-delta\",\"index\":2,\"delta\":{\"message\":{\"tool_calls\":{\"function\":{\"arguments\":\"1\"}}}}}'')
     (delta_event (Num (Dec 2 0)) ''1'') \<and>
   carries (js ''data: {\"type\":\"content-delta\",\"delta\":{\"message\":{\"content\":{\"text\":\"Hi\"}}}}'')
     (text_event ''Hi'') \<and>
   carries (js ''{\"type\":\"tool-call-delta\",\"index\":2,\"delta\":{\"message\":{\"tool_calls\":{\"function\":{\"arguments\":\",2\"}}}}}'')
     (delta_event (Num (Dec 2 0)) '',2'') \<and>
   carries (js ''{\"type\":\"tool-call-delta\",\"index\":2,\"delta\":{\"message\":{\"tool_calls\":{\"function\":{\"arguments\":\"]\"}}}}}'')
     (delta_event (Num (Dec 2 0)) '']'') \<and>
   (\<exists>st'. process_lines (cfg_with None) (Arr []) (initial ())
       [js ''{\"type\":\"tool-call-start\",\"index\":2,\"delta\":{\"message\":{\"tool_calls\":{\"id\":\"t1\",\"function\":{\"name\":\"lookup\",\"arguments\":\"[\"}}}}}'',
        js ''{\"type\":\"tool-call-delta\",\"index\":2,\"delta\":{\"message\":{\"tool_calls\":{\"function\":{\"arguments\":\"1\"}}}}}'',
        js ''data: {\"type\":\"content-delta\",\"delta\":{\"message\":{\"content\":{\"text\":\"Hi\"}}}}'',
        js ''{\"type\":\"tool-call-delta\",\"index\":2,\"delta\":{\"message\":{\"tool_calls\":{\"function\":{\"arguments\":\",2\"}}}}}'',
        js ''{\"type\":\"tool-call-delta\",\"index\":2,\"delta\":{\"message\":{\"tool_calls\":{\"function\":{\"arguments\":\"]\"}}}}}''] = Go st' \<and>
      entries_at (toolCallsMap st') (Num (Dec 2 0)) = [(Num (Dec 2 0), Obj [(js ''id'', Str (js ''t1'')), (js ''name'', Str (js ''lookup'')), (js ''arguments'', Str (js ''[1,2]''))])] \<and>
      map_get (toolCallsMap st') (Num (Dec 2 0)) = Some (Obj [(js ''id'', Str (js ''t1'')), (js ''name'', Str (js ''lookup'')), (js ''arguments'', Str (js ''[1,2]''))]))"
proof -
  have c0: "carries (js ''{\"type\":\"tool-call-start\",\"index\":2,\"delta\":{\"message\":{\"tool_calls\":{\"id\":\"t1\",\"function\":{\"name\":\"lookup\",\"arguments\":\"[\"}}}}}'')
     (start_event (Num (Dec 2 0)) ''t1'' ''lookup'' ''['')" by code_simp
  have c1: "carries (js ''{\"type\":\"tool-call-delta\",\"index\":2,\"delta\":{\"message\":{\"tool_calls\":{\"function\":{\"arguments\":\"1\"}}}}}'')
     (delta_event (Num (Dec 2 0)) ''1'')" by code_simp
  have c2: "carries (js ''data: {\"type\":\"content-delta\",\"delta\":{\"message\":{\"content\":{\"text\":\"Hi\"}}}}'')
     (text_event ''Hi'')" by code_simp
  have c3: "carries (js ''{\"type\":\"tool-call-delta\",\"index\":2,\"delta\":{\"message\":{\"tool_calls\":{\"function\":{\"arguments\":\",2\"}}}}}'')
     (delta_event (Num (Dec 2 0)) '',2'')" by code_simp
  have c4: "carries (js ''{\"type\":\"tool-call-delta\",\"index\":2,\"delta\":{\"message\":{\"tool_calls\":{\"function\":{\"arguments\":\"]\"}}}}}'')
     (delta_event (Num (Dec 2 0)) '']'')" by code_simp
  have t: "currentEventType (initial ()) = Null" by (simp add: initial_def)
  have a1: "primitive (Num (Dec 2 0))" by simp
  have a2: "length (entries_at (toolCallsMap (initial ())) (Num (Dec 2 0))) \<le> 1"
    by (simp add: initial_def entries_at_def)
  have a4: "eventType_of (currentEventType (initial ())) (start_event (Num (Dec 2 0)) ''t1'' ''lookup'' ''['') = Str (js ''tool-call-start'')"
    by (simp add: eventType_of_def js_or_def)
  have a5: "own (start_event (Num (Dec 2 0)) ''t1'' ''lookup'' ''['') (js ''index'') = Num (Dec 2 0)" by simp
  have ds: "deltaStart_of (start_event (Num (Dec 2 0)) ''t1'' ''lookup'' ''['') =
      Obj [(js ''id'', Str (js ''t1'')),
           (js ''function'', Obj [(js ''name'', Str (js ''lookup'')), (js ''arguments'', Str (js ''['') )])]"
    by (simp add: deltaStart_of_def opt_def nullish_def)
  have a6: "truthy (deltaStart_of (start_event (Num (Dec 2 0)) ''t1'' ''lookup'' ''[''))" by (simp add: ds)
  have a7: "own (deltaStart_of (start_event (Num (Dec 2 0)) ''t1'' ''lookup'' ''['')) (js ''id'') = Str (js ''t1'')" by (simp add: ds)
  have a8: "get (own (deltaStart_of (start_event (Num (Dec 2 0)) ''t1'' ''lookup'' ''['')) (js ''function'')) (js ''name'') = Inr (Str (js ''lookup''))"
    by (simp add: ds get_def nullish_def)
  have a9: "js_or (own (own (deltaStart_of (start_event (Num (Dec 2 0)) ''t1'' ''lookup'' ''['')) (js ''function'')) (js ''arguments'')) (Str [])
      = Str (js ''['')"
    by (simp add: ds js_or_def)
  have a10: "list_all2 carries
      [js ''{\"type\":\"tool-call-delta\",\"index\":2,\"delta\":{\"message\":{\"tool_calls\":{\"function\":{\"arguments\":\"1\"}}}}}'',
       js ''data: {\"type\":\"content-delta\",\"delta\":{\"message\":{\"content\":{\"text\":\"Hi\"}}}}'',
       js ''{\"type\":\"tool-call-delta\",\"index\":2,\"delta\":{\"message\":{\"tool_calls\":{\"function\":{\"arguments\":\",2\"}}}}}'',
       js ''{\"type\":\"tool-call-delta\",\"index\":2,\"delta\":{\"message\":{\"tool_calls\":{\"function\":{\"arguments\":\"]\"}}}}}'']
      [delta_event (Num (Dec 2 0)) ''1'', text_event ''Hi'', delta_event (Num (Dec 2 0)) '',2'', delta_event (Num (Dec 2 0)) '']'']"
    using c1 c2 c3 c4 by simp
  have k: "delta_at Null (Num (Dec 2 0)) (delta_event (Num (Dec 2 0)) ''1'')"
    "elsewhere Null (Num (Dec 2 0)) (text_event ''Hi'')" "\<not> delta_at Null (Num (Dec 2 0)) (text_event ''Hi'')"
    "delta_at Null (Num (Dec 2 0)) (delta_event (Num (Dec 2 0)) '',2'')"
    "delta_at Null (Num (Dec 2 0)) (delta_event (Num (Dec 2 0)) '']'')"
    by (simp_all add: delta_at_def elsewhere_def eventType_of_def js_or_def deltaArgs_of_def
        opt_def nullish_def)
  have a11: "\<forall>p\<in>set [delta_event (Num (Dec 2 0)) ''1'', text_event ''Hi'', delta_event (Num (Dec 2 0)) '',2'', delta_event (Num (Dec 2 0)) '']''].
      delta_at (currentEventType (initial ())) (Num (Dec 2 0)) p \<or>
      elsewhere (currentEventType (initial ())) (Num (Dec 2 0)) p"
    unfolding t using k by simp
  have v: "js ''['' @ concat (map (\<lambda>p. to_string (deltaArgs_of p))
      (filter (delta_at (currentEventType (initial ())) (Num (Dec 2 0)))
         [delta_event (Num (Dec 2 0)) ''1'', text_event ''Hi'', delta_event (Num (Dec 2 0)) '',2'', delta_event (Num (Dec 2 0)) '']''])) = js ''[1,2]''"
    unfolding t using k by (simp add: deltaArgs_of_def opt_def nullish_def js_def)
  note r = tool_call_accumulation [OF a1 a2 c0 a4 a5 a6 a7 a8 a9 a10 a11, of "cfg_with None" "Arr []",
      unfolded v]
  from c0 c1 c2 c3 c4 r show ?thesis by blast
qed


lemma js_split_not_Nil [simp]: "js_split s \<noteq> []"
  by (induction s) (auto split: list.splits)

lemma js_split_no_newline: "0x0A \<notin> set b \<Longrightarrow> js_split b = [b]"
  by (induction b) auto

lemma last_js_split_no_newline: "0x0A \<notin> set (last (js_split s))"
proof (induction s)
  case Nil
  show ?case by simp
next
  case (Cons c s)
  then show ?case by (cases "js_split s") auto
qed

lemma js_split_append:
  "js_split (a @ b) = butlast (js_split a) @ js_split (last (js_split a) @ b)"
proof (induction a)
  case Nil
  show ?case by simp
next
  case (Cons c a)
  show ?case
  proof (cases "c = 0x0A")
    case True
    with Cons show ?thesis by simp
  next
    case False
    obtain l ls where s: "js_split a = l # ls" by (cases "js_split a") auto
    show ?thesis
    proof (cases ls)
      case Nil
      with False s Cons show ?thesis by (cases "js_split (l @ b)") auto
    next
      case (Cons l' ls')
      with False s Cons.IH show ?thesis by simp
    qed
  qed
qed

lemma pop_js_split: "pop (js_split s) = (last (js_split s), butlast (js_split s))"
  by (simp add: pop_def)

lemma process_lines_append:
  "process_lines cfg prev st (xs @ ys) =
     (case process_lines cfg prev st xs of
        Go st' \<Rightarrow> process_lines cfg prev st' ys
      | Caught e st' \<Rightarrow> process_lines cfg prev st' ys
      | Stop st' b \<Rightarrow> Stop st' b)"
  by (induction xs arbitrary: st) (auto split: step.splits)

lemma process_lines_not_Caught: "process_lines cfg prev st xs \<noteq> Caught e st'"
  by (induction xs arbitrary: st) (auto split: step.splits)

lemma read_loop_single:
  "read_loop cfg prev st buffer [c] e =
     (case process_lines cfg prev st (butlast (js_split (buffer @ c))) of
        Go st' \<Rightarrow> read_loop cfg prev st' (last (js_split (buffer @ c))) [] e
      | Caught x st' \<Rightarrow> read_loop cfg prev st' (last (js_split (buffer @ c))) [] e
      | Stop st' b \<Rightarrow> Returns st' b)"
  by (simp add: pop_js_split)

lemma read_loop_concat:
  "0x0A \<notin> set buffer \<Longrightarrow>
   read_loop cfg prev st buffer cs e = read_loop cfg prev st buffer [concat cs] e"
proof (induction cs arbitrary: st buffer)
  case Nil
  then show ?case by (simp add: js_split_no_newline pop_def)
next
  case (Cons c cs)
  define sp where "sp = js_split (buffer @ c)"
  define sp2 where "sp2 = js_split (last sp @ concat cs)"
  have nb: "0x0A \<notin> set (last sp)" unfolding sp_def by (rule last_js_split_no_newline)
  have split: "js_split (buffer @ concat (c # cs)) = butlast sp @ sp2"
    using js_split_append [of "buffer @ c" "concat cs"] by (simp add: sp_def sp2_def)
  have ne: "sp2 \<noteq> []" by (simp add: sp2_def)
  have IH: "read_loop cfg prev st' (last sp) cs e =
      (case process_lines cfg prev st' (butlast sp2) of
         Go st'' \<Rightarrow> read_loop cfg prev st'' (last sp2) [] e
       | Caught x st'' \<Rightarrow> read_loop cfg prev st'' (last sp2) [] e
       | Stop st'' b \<Rightarrow> Returns st'' b)" for st'
    unfolding Cons.IH [OF nb] read_loop_single sp2_def ..
  have lhs: "read_loop cfg prev st buffer (c # cs) e =
      (case process_lines cfg prev st (butlast sp) of
         Go st' \<Rightarrow> read_loop cfg prev st' (last sp) cs e
       | Caught x st' \<Rightarrow> read_loop cfg prev st' (last sp) cs e
       | Stop st' b \<Rightarrow> Returns st' b)"
    unfolding sp_def by (simp add: pop_js_split)
  have rhs: "read_loop cfg prev st buffer [concat (c # cs)] e =
      (case process_lines cfg prev st (butlast sp @ butlast sp2) of
         Go st' \<Rightarrow> read_loop cfg prev st' (last sp2) [] e
       | Caught x st' \<Rightarrow> read_loop cfg prev st' (last sp2) [] e
       | Stop st' b \<Rightarrow> Returns st' b)"
  proof -
    have l: "last (butlast sp @ sp2) = last sp2" using ne by simp
    have b: "butlast (butlast sp @ sp2) = butlast sp @ butlast sp2"
      using ne by (simp add: butlast_append)
    show ?thesis unfolding read_loop_single split l b ..
  qed
  show ?case
    unfolding lhs rhs process_lines_append
    by (cases "process_lines cfg prev st (butlast sp)") (simp_all add: IH)
qed


lemma dispatch_frame:
  "requests (step_state (dispatch cfg prev st parsed)) = requests st \<and>
   abortController (step_state (dispatch cfg prev st parsed)) = abortController st"
  by (auto simp: dispatch_def Let_def split: if_splits sum.splits option.splits prod.splits)

lemma process_line_frame:
  "requests (step_state (process_line cfg prev st line)) = requests st \<and>
   abortController (step_state (process_line cfg prev st line)) = abortController st"
proof -
  have "requests (step_state (case dispatch cfg prev st parsed of Caught e st' \<Rightarrow> Go st' | r \<Rightarrow> r)) = requests st \<and>
    abortController (step_state (case dispatch cfg prev st parsed of Caught e st' \<Rightarrow> Go st' | r \<Rightarrow> r)) = abortController st"
    for parsed
    using dispatch_frame [of cfg prev st parsed]
    by (cases "dispatch cfg prev st parsed") auto
  then show ?thesis
    by (simp add: process_line_def Let_def split: option.splits)
qed

lemma process_lines_frame:
  "requests (step_state (process_lines cfg prev st ls)) = requests st \<and>
   abortController (step_state (process_lines cfg prev st ls)) = abortController st"
proof (induction ls arbitrary: st)
  case Nil
  show ?case by simp
next
  case (Cons l ls)
  from process_line_frame [of cfg prev st l] Cons [of "step_state (process_line cfg prev st l)"]
  show ?case
    by (cases "process_line cfg prev st l") auto
qed

lemma read_loop_frame:
  "requests (state_of (read_loop cfg prev st buffer cs e)) = requests st \<and>
   abortController (state_of (read_loop cfg prev st buffer cs e)) = abortController st"
proof (induction cs arbitrary: st buffer)
  case Nil
  show ?case by (cases e) auto
next
  case (Cons c cs)
  let ?r = "process_lines cfg prev st (butlast (js_split (buffer @ c)))"
  from process_lines_frame [of cfg prev st "butlast (js_split (buffer @ c))"]
    Cons [of "step_state ?r" "last (js_split (buffer @ c))"]
  show ?case
    by (cases ?r) (auto simp: pop_js_split)
qed

lemma readStream_frame:
  "requests (state_of (readStream s cfg prev st)) = requests st \<and>
   abortController (state_of (readStream s cfg prev st)) = abortController st"
  using read_loop_frame [of cfg prev "st\<lparr>toolCallsMap := [], currentEventType := Null\<rparr>" "[]" "chunks s" "ending s"]
  by (simp add: readStream_def)

lemma catch_request_frame:
  "requests (catch_request st e) = requests st \<and>
   abortController (catch_request st e) = abortController st"
  by (simp add: catch_request_def)

text \<open>Every \<open>processRequest\<close> starts with its \<open>fetch\<close>.\<close>

lemma processRequest_issues:
  "\<exists>more. requests (processRequest cfg b st net) = requests st @ (b, abortController st) # more"
proof (induction net arbitrary: b st)
  case Nil
  show ?case by (simp add: catch_request_frame Let_def)
next
  case (Cons r net)
  let ?st1 = "st\<lparr>requests := requests st @ [(b, abortController st)]\<rparr>"
  show ?case
  proof (cases r)
    case (Rejects e)
    then show ?thesis by (simp add: catch_request_frame Let_def)
  next
    case (Responds resp)
    show ?thesis
    proof (cases "ok resp \<and> responseBody resp \<noteq> None \<and> \<not> nullish b")
      case False
      with Responds show ?thesis
        by (auto simp: catch_request_frame Let_def split: option.splits)
    next
      case True
      then obtain s where s: "responseBody resp = Some s" and ok: "ok resp" and nn: "\<not> nullish b"
        by auto
      let ?prev = "own b (js ''messages'')"
      from readStream_frame [of s cfg ?prev ?st1]
      have f: "requests (state_of (readStream s cfg ?prev ?st1)) = requests st @ [(b, abortController st)]"
        "abortController (state_of (readStream s cfg ?prev ?st1)) = abortController st"
        by simp_all
      show ?thesis
      proof (cases "readStream s cfg ?prev ?st1")
        case (Throws e st2)
        with f Responds s ok nn show ?thesis by (simp add: catch_request_frame Let_def)
      next
        case (Returns st2 nb)
        show ?thesis
        proof (cases nb)
          case None
          with Returns f Responds s ok nn show ?thesis by (simp add: Let_def)
        next
          case (Some nxt)
          from Cons [of nxt st2] obtain more where
            "requests (processRequest cfg nxt st2 net) = requests st2 @ (nxt, abortController st2) # more"
            by blast
          with Some Returns f Responds s ok nn show ?thesis by (simp add: Let_def)
        qed
      qed
    qed
  qed
qed



lemma nullish_Obj [simp]: "\<not> nullish (Obj ps)"
  by (simp add: nullish_def)







text \<open>When the \<open>await Promise.all\<close> throws, the exception is caught by the line loop after
  the handlers have run: the reader goes on with the next line and no request is made.\<close>

lemma dispatch_message_end_rejected:
  assumes "eventType_of (currentEventType st) parsed = Str (js ''message-end'')"
    and "toolCallsMap st \<noteq> []"
    and "toolResults (executeToolCalls (toolCache st) cfg (map_values (toolCallsMap st)) (world st)) = Inl e"
  shows "dispatch cfg prev st parsed =
     Caught e (st\<lparr>toolCache := cache_after (executeToolCalls (toolCache st) cfg (map_values (toolCallsMap st)) (world st)),
              world := world_after (executeToolCalls (toolCache st) cfg (map_values (toolCallsMap st)) (world st)),
              invocations := invocations st @ invoked (executeToolCalls (toolCache st) cfg (map_values (toolCallsMap st)) (world st))\<rparr>)"
  using assms
  by (simp add: dispatch_def Let_def handleToolCalls_def map_values_def)

text \<open>
  Claim C1. Whatever the chunks in which the text of a response arrives, \<open>readStream\<close>
  ends as it does when the whole text arrives in one chunk: in the same way (it returns or
  throws), with the same continuation request and in the same state, which holds the
  notifications emitted, in their order. No line is lost or read twice by the buffering.
\<close>

theorem frame_splitting_invariance:
  "readStream \<lparr>chunks = cs, ending = e\<rparr> cfg prev st =
   readStream \<lparr>chunks = [concat cs], ending = e\<rparr> cfg prev st"
  by (simp add: readStream_def read_loop_concat)


theorem frame_splitting_example:
  "readStream \<lparr>chunks = [js ''{\"type\":\"content-delta\",\"text\":\"Hel\"}'' @ [0x0A] @ js ''{\"type\":\"content-'',
                        js ''delta\",\"text\":\"lo\"}'' @ [0x0A] @ js ''{\"type\":\"stream-end\"}'' @ [0x0A]],
                ending = None\<rparr> (cfg_with None) (Arr []) (initial ()) =
   readStream \<lparr>chunks = [concat [js ''{\"type\":\"content-delta\",\"text\":\"Hel\"}'' @ [0x0A] @ js ''{\"type\":\"content-'',
                        js ''delta\",\"text\":\"lo\"}'' @ [0x0A] @ js ''{\"type\":\"stream-end\"}'' @ [0x0A]]],
                ending = None\<rparr> (cfg_with None) (Arr []) (initial ()) \<and>
   subject (state_of (readStream \<lparr>chunks = [js ''{\"type\":\"content-delta\",\"text\":\"Hel\"}'' @ [0x0A] @ js ''{\"type\":\"content-'',
                        js ''delta\",\"text\":\"lo\"}'' @ [0x0A] @ js ''{\"type\":\"stream-end\"}'' @ [0x0A]],
                ending = None\<rparr> (cfg_with None) (Arr []) (initial ()))) =
     [Next (Str (js ''Hel'')), Next (Str (js ''lo'')), Complete]"
proof -
  have "subject (state_of (readStream \<lparr>chunks = [js ''{\"type\":\"content-delta\",\"text\":\"Hel\"}'' @ [0x0A] @ js ''{\"type\":\"content-'',
                        js ''delta\",\"text\":\"lo\"}'' @ [0x0A] @ js ''{\"type\":\"stream-end\"}'' @ [0x0A]],
                ending = None\<rparr> (cfg_with None) (Arr []) (initial ()))) =
     [Next (Str (js ''Hel'')), Next (Str (js ''lo'')), Complete]"
    by code_simp
  with frame_splitting_invariance [of "[js ''{\"type\":\"content-delta\",\"text\":\"Hel\"}'' @ [0x0A] @ js ''{\"type\":\"content-'',
                        js ''delta\",\"text\":\"lo\"}'' @ [0x0A] @ js ''{\"type\":\"stream-end\"}'' @ [0x0A]]" None "cfg_with None" "Arr []" "initial ()"]
  show ?thesis by blast
qed






section \<open>The cancellation gate\<close>

text \<open>\<open>stopStream\<close> without a controller changes nothing.\<close>

lemma stopStream_idle: "abortController st = None \<Longrightarrow> stopStream st = st"
  by (simp add: stopStream_def)

text \<open>\<open>generateResponse\<close> aborts the controller it finds and installs a new one, which
  has not been aborted, before its request is made.\<close>

lemma begin_response_gate:
  "abortController (begin_response st) = Some (created st) \<and>
   (\<forall>c. abortController st = Some c \<longrightarrow> c \<in> set (aborted (begin_response st))) \<and>
   set (aborted (begin_response st)) \<subseteq> set (aborted st) \<union> set_option (abortController st)"
  by (auto simp: begin_response_def stopStream_def Let_def split: option.splits)

lemma generateResponse_issues:
  "\<exists>more. requests (generateResponse cfg messages st net) =
     requests st @ (first_body cfg messages, Some (created st)) # more"
proof -
  have "requests (begin_response st) = requests st"
    "abortController (begin_response st) = Some (created st)"
    by (simp_all add: begin_response_def stopStream_def Let_def)
  with processRequest_issues [of cfg "first_body cfg messages" "begin_response st" net]
  show ?thesis by (simp add: generateResponse_def)
qed

text \<open>When the abort surfaces in \<open>processRequest\<close>, the output channel completes; any other
  exception is an error of the channel.\<close>

lemma catch_request_abort:
  "subject (catch_request st Aborted) = subject_complete (subject st)"
  "error_name e \<noteq> js ''AbortError'' \<Longrightarrow>
   subject (catch_request st e) = subject_error (subject st) e"
  by (simp_all add: catch_request_def)

text \<open>
  Claim C9. The claim: every \<open>generateResponse\<close> aborts and clears the controller before
  it installs a new one and makes its request, the aborted request closes its channel
  with a completion, \<open>stopStream\<close> without a controller does nothing, and so there is at
  most one live stream at any time. The three steps are as the claim says
  (\<open>begin_response_gate\<close>, \<open>catch_request_abort\<close>, \<open>stopStream_idle\<close>), but the
  conclusion fails for a conversation that is waiting for its tool handlers: it has no
  pending \<open>fetch\<close> or read that the abort could reject, and when the handlers have settled,
  \<open>handleToolCalls\<close> calls \<open>processRequest\<close>, which attaches the signal of whatever
  controller is in the slot at that moment.

  First run: \<open>generateResponse\<close>; the response arrives; its stream delivers tool calls and
  a \<open>message-end\<close>; while the handlers run, \<open>generateResponse\<close> is called again (controller
  0 is aborted, controller 1 installed); the handlers settle. Now the first conversation
  waits for a \<open>fetch\<close> under controller 1, as the second does: two live streams. Second
  run: the same with \<open>stopStream\<close> in place of the second \<open>generateResponse\<close>. The
  continuation is fetched without a signal: a live stream after the stop, which no later
  \<open>stopStream\<close> or \<open>generateResponse\<close> can abort.
\<close>

theorem single_flight_broken:
  "snd (foldl happen (initial (), [])
          [CallGenerate, ResponseArrives 0, ToolCallsArrive 0, CallGenerate, ToolsSettle 0]) =
     [AwaitFetch (Some 1), AwaitFetch (Some 1)] \<and>
   aborted (fst (foldl happen (initial (), [])
          [CallGenerate, ResponseArrives 0, ToolCallsArrive 0, CallGenerate, ToolsSettle 0])) = [0] \<and>
   live_streams (foldl happen (initial (), [])
          [CallGenerate, ResponseArrives 0, ToolCallsArrive 0, CallGenerate, ToolsSettle 0]) = 2 \<and>
   snd (foldl happen (initial (), [])
          [CallGenerate, ResponseArrives 0, ToolCallsArrive 0, CallStop, ToolsSettle 0]) =
     [AwaitFetch None] \<and>
   abortController (fst (foldl happen (initial (), [])
          [CallGenerate, ResponseArrives 0, ToolCallsArrive 0, CallStop, ToolsSettle 0])) = None \<and>
   live_streams (foldl happen (initial (), [])
          [CallGenerate, ResponseArrives 0, ToolCallsArrive 0, CallStop, ToolsSettle 0]) = 1 \<and>
   live_streams (foldl happen (initial (), [])
          [CallGenerate, ResponseArrives 0, ToolCallsArrive 0, CallStop, ToolsSettle 0,
           CallStop, AbortSurfaces 0, CallGenerate, AbortSurfaces 0]) = 2"
  by code_simp

end
